theory Spec2Isabelle
  imports Main "HOL-Library.AList"
begin

section \<open>Python built-ins used by the server and the client\<close>

text \<open>
  Python strings are modelled as \<^typ>\<open>string\<close>: a character is a code point below 256,
  and the built-ins are modelled as they behave on such strings. Python's unbounded
  integers are \<^typ>\<open>int\<close>. Left out is the limit on the number of digits of a conversion
  between \<open>str\<close> and \<open>int\<close> (4300 digits by default from Python 3.11 on, none before, and
  configurable): the code does not say which interpreter runs it.
\<close>

type_synonym bytes = "char list"

datatype exn =
    ValueError string
  | IndexError string
  | OverflowError string
  | TypeError string
  | StructError string
  | UnpicklingError string

fun str_exn :: "exn \<Rightarrow> string" where
  "str_exn (ValueError m) = m"
| "str_exn (IndexError m) = m"
| "str_exn (OverflowError m) = m"
| "str_exn (TypeError m) = m"
| "str_exn (StructError m) = m"
| "str_exn (UnpicklingError m) = m"

text \<open>\<open>s.split(sep)\<close> and \<open>s.split(sep, maxsplit)\<close> for a one-character separator.\<close>

fun py_split :: "char \<Rightarrow> string \<Rightarrow> string list" where
  "py_split sep [] = [[]]"
| "py_split sep (c # cs) =
     (if c = sep then [] # py_split sep cs
      else (case py_split sep cs of [] \<Rightarrow> [[c]] | w # ws \<Rightarrow> (c # w) # ws))"

fun py_split_max :: "char \<Rightarrow> nat \<Rightarrow> string \<Rightarrow> string list" where
  "py_split_max sep 0 s = [s]"
| "py_split_max sep (Suc n) [] = [[]]"
| "py_split_max sep (Suc n) (c # cs) =
     (if c = sep then [] # py_split_max sep n cs
      else (case py_split_max sep (Suc n) cs of [] \<Rightarrow> [[c]] | w # ws \<Rightarrow> (c # w) # ws))"

text \<open>\<open>s.replace(old, new)\<close> for one-character \<open>old\<close> and \<open>new\<close>.\<close>

definition py_replace :: "char \<Rightarrow> char \<Rightarrow> string \<Rightarrow> string" where
  "py_replace old new s = map (\<lambda>c. if c = old then new else c) s"


definition py_rstrip_char :: "char \<Rightarrow> string \<Rightarrow> string" where
  "py_rstrip_char c s = rev (dropWhile (\<lambda>x. x = c) (rev s))"

text \<open>The characters that \<open>str.strip()\<close> removes.\<close>

definition py_isspace :: "char \<Rightarrow> bool" where
  "py_isspace c =
     (c \<in> set [CHR 0x09, CHR 0x0A, CHR 0x0B, CHR 0x0C, CHR 0x0D,
                CHR 0x1C, CHR 0x1D, CHR 0x1E, CHR 0x1F, CHR 0x20, CHR 0x85, CHR 0xA0])"

definition py_strip :: "string \<Rightarrow> string" where
  "py_strip s = rev (dropWhile py_isspace (rev (dropWhile py_isspace s)))"

text \<open>\<open>str(n)\<close> for an integer: decimal digits, with a minus sign for a negative one.\<close>

definition digit_char :: "nat \<Rightarrow> char" where
  "digit_char d = char_of (48 + d)"

function str_nat :: "nat \<Rightarrow> string" where
  "str_nat n = (if n < 10 then [digit_char n] else str_nat (n div 10) @ [digit_char (n mod 10)])"
  by pat_completeness auto
termination
  by (relation "measure id") auto

declare str_nat.simps [simp del]

definition str_int :: "int \<Rightarrow> string" where
  "str_int i = (if i < 0 then CHR ''-'' # str_nat (nat (- i)) else str_nat (nat i))"

text \<open>
  \<open>int(s)\<close> in base 10: white space around the literal is skipped, one sign is allowed,
  and single underscores may stand between digits. Anything else raises \<open>ValueError\<close>,
  whose message quotes the argument with the first 200 characters of its \<open>repr\<close>.
\<close>

definition int_isspace :: "char \<Rightarrow> bool" where
  "int_isspace c =
     (c \<in> set [CHR 0x09, CHR 0x0A, CHR 0x0B, CHR 0x0C, CHR 0x0D, CHR 0x20, CHR 0x85, CHR 0xA0])"

definition is_digit :: "char \<Rightarrow> bool" where
  "is_digit c = (48 \<le> (of_char c :: nat) \<and> (of_char c :: nat) \<le> 57)"

fun digits_ok :: "string \<Rightarrow> bool" where
  "digits_ok [] = False"
| "digits_ok [c] = is_digit c"
| "digits_ok (c # d # r) =
     (is_digit c \<and> (if d = CHR ''_'' then digits_ok r else digits_ok (d # r)))"

definition digits_value :: "string \<Rightarrow> nat" where
  "digits_value ds =
     foldl (\<lambda>acc c. 10 * acc + (of_char c - 48)) 0 (filter (\<lambda>c. c \<noteq> CHR ''_'') ds)"

definition hex_digit :: "nat \<Rightarrow> char" where
  "hex_digit d = (if d < 10 then char_of (48 + d) else char_of (87 + d))"

definition repr_char :: "char \<Rightarrow> char \<Rightarrow> string" where
  "repr_char q c =
     (if c = q \<or> c = CHR 0x5C then [CHR 0x5C, c]
      else if c = CHR 0x09 then [CHR 0x5C, CHR ''t'']
      else if c = CHR 0x0A then [CHR 0x5C, CHR ''n'']
      else if c = CHR 0x0D then [CHR 0x5C, CHR ''r'']
      else if (of_char c :: nat) < 32
              \<or> (127 \<le> (of_char c :: nat) \<and> (of_char c :: nat) \<le> 160)
              \<or> (of_char c :: nat) = 173
        then [CHR 0x5C, CHR ''x'', hex_digit (of_char c div 16), hex_digit (of_char c mod 16)]
      else [c])"

definition py_repr :: "string \<Rightarrow> string" where
  "py_repr s =
     (let q = (if CHR 0x27 \<in> set s \<and> CHR 0x22 \<notin> set s then CHR 0x22 else CHR 0x27)
      in [q] @ concat (map (repr_char q) s) @ [q])"

definition py_int :: "string \<Rightarrow> exn + int" where
  "py_int s =
     (let t = rev (dropWhile int_isspace (rev (dropWhile int_isspace s)));
          neg = (case t of [] \<Rightarrow> False | c # r \<Rightarrow> c = CHR ''-'');
          ds = (case t of [] \<Rightarrow> [] | c # r \<Rightarrow> if c = CHR ''-'' \<or> c = CHR ''+'' then r else t)
      in if digits_ok ds
         then Inr (if neg then - int (digits_value ds) else int (digits_value ds))
         else Inl (ValueError (''invalid literal for int() with base 10: ''
                                 @ take 200 (py_repr s))))"

section \<open>The mail store\<close>

text \<open>
  An e-mail is the dictionary that \<open>handle_send\<close> and \<open>handle_forward\<close> build. The
  server's \<open>users\<close> dictionary is an association list in insertion order, \<open>emails\<close> is
  the list of e-mails; \<open>server_db_json\<close> is the content of the file \<open>server_db.json\<close>
  (\<open>None\<close> while the file does not exist).
\<close>

record email =
  email_id :: int
  email_from :: string
  email_to :: string
  email_subject :: string
  email_body :: string
  email_timestamp :: string
  email_read :: bool

record db =
  db_users :: "(string \<times> string) list"
  db_emails :: "email list"
  db_email_id_counter :: int

record server =
  users :: "(string \<times> string) list"
  emails :: "email list"
  email_id_counter :: int
  clients :: int
  server_db_json :: "db option"

text \<open>
  What a handler reads from its environment: the clock (\<open>datetime.now()\<close>, already
  formatted) and whether \<open>server_db.json\<close> can be written.
\<close>

record env =
  now :: string
  disk_writable :: bool

text \<open>
  \<open>save_server_data\<close> overwrites the file with the whole store; a failure to write is
  caught and only printed, so the caller never sees it.
\<close>

definition snapshot :: "server \<Rightarrow> db" where
  "snapshot s =
     \<lparr>db_users = users s, db_emails = emails s, db_email_id_counter = email_id_counter s\<rparr>"

definition save_server_data :: "env \<Rightarrow> server \<Rightarrow> server" where
  "save_server_data e s = (if disk_writable e then s\<lparr>server_db_json := Some (snapshot s)\<rparr> else s)"

text \<open>The state after \<open>__init__\<close>, given the content of \<open>server_db.json\<close> at startup.\<close>

definition load_server_data :: "db option \<Rightarrow> server" where
  "load_server_data file =
     (case file of
        None \<Rightarrow> \<lparr>users = [], emails = [], email_id_counter = 0, clients = 0,
                 server_db_json = None\<rparr>
      | Some d \<Rightarrow> \<lparr>users = db_users d, emails = db_emails d,
                   email_id_counter = db_email_id_counter d, clients = 0,
                   server_db_json = Some d\<rparr>)"

section \<open>Command handlers\<close>

text \<open>
  Every handler is a \<open>try\<close> block whose \<open>except Exception as e\<close> clause returns
  \<open>ERROR|str(e)\<close>. The \<open>try\<close> block is the function named \<open>_try\<close>; it returns
  \<open>Inl\<close> where the Python raises. The only call that can raise is \<open>int(msg_id)\<close>, and it
  comes before any change to the store, so the store at the \<open>except\<close> clause is the one the
  handler started with.
\<close>

type_synonym result = "exn + (server \<times> string)"

definition except_Exception :: "server \<Rightarrow> result \<Rightarrow> result" where
  "except_Exception s r =
     (case r of Inl e \<Rightarrow> Inr (s, ''ERROR|'' @ str_exn e) | Inr v \<Rightarrow> Inr v)"

definition handle_register_try :: "env \<Rightarrow> server \<Rightarrow> string \<Rightarrow> result" where
  "handle_register_try e s data =
     (case py_split_max (CHR ''|'') 2 data of
        [x, username, password] \<Rightarrow>
          if map_of (users s) username \<noteq> None then Inr (s, ''ERROR|Username already exists'')
          else Inr (save_server_data e (s\<lparr>users := AList.update username password (users s)\<rparr>),
                    ''OK|User '' @ username @ '' registered successfully'')
      | _ \<Rightarrow> Inr (s, ''ERROR|Invalid REGISTER format''))"

definition handle_register :: "env \<Rightarrow> server \<Rightarrow> string \<Rightarrow> result" where
  "handle_register e s data = except_Exception s (handle_register_try e s data)"

definition handle_login_try :: "env \<Rightarrow> server \<Rightarrow> string \<Rightarrow> result" where
  "handle_login_try e s data =
     (case py_split (CHR ''|'') data of
        [x, username, password] \<Rightarrow>
          (case map_of (users s) username of
             None \<Rightarrow> Inr (s, ''ERROR|Username not found'')
           | Some stored \<Rightarrow>
               if stored \<noteq> password then Inr (s, ''ERROR|Invalid password'')
               else Inr (s, ''OK|Welcome '' @ username @ ''!''))
      | _ \<Rightarrow> Inr (s, ''ERROR|Invalid LOGIN format''))"

definition handle_login :: "env \<Rightarrow> server \<Rightarrow> string \<Rightarrow> result" where
  "handle_login e s data = except_Exception s (handle_login_try e s data)"

definition handle_send_try :: "env \<Rightarrow> server \<Rightarrow> string \<Rightarrow> result" where
  "handle_send_try e s data =
     (case py_split_max (CHR ''|'') 4 data of
        [x, sender, recipient, subject, body] \<Rightarrow>
          if map_of (users s) recipient = None then Inr (s, ''ERROR|Recipient not found'')
          else
            (let s1 = s\<lparr>email_id_counter := email_id_counter s + 1\<rparr>;
                 email = \<lparr>email_id = email_id_counter s1, email_from = sender,
                          email_to = recipient, email_subject = subject, email_body = body,
                          email_timestamp = now e, email_read = False\<rparr>;
                 s2 = s1\<lparr>emails := emails s1 @ [email]\<rparr>
             in Inr (save_server_data e s2, ''OK|Email sent to '' @ recipient))
      | _ \<Rightarrow> Inr (s, ''ERROR|Invalid SEND format (need: SEND|from|to|subject|body)''))"

definition handle_send :: "env \<Rightarrow> server \<Rightarrow> string \<Rightarrow> result" where
  "handle_send e s data = except_Exception s (handle_send_try e s data)"

definition inbox_line :: "email \<Rightarrow> string" where
  "inbox_line m =
     str_int (email_id m) @ ''~'' @ email_from m @ ''~'' @ email_subject m @ ''~''
       @ email_timestamp m @ ''~'' @ (if email_read m then ''READ'' else ''UNREAD'') @ '';''"

definition handle_inbox_try :: "env \<Rightarrow> server \<Rightarrow> string \<Rightarrow> result" where
  "handle_inbox_try e s data =
     (case py_split (CHR ''|'') data of
        [x, username] \<Rightarrow>
          (let inbox = filter (\<lambda>m. email_to m = username) (emails s) in
           if inbox = [] then Inr (s, ''EMPTY|No emails in inbox'')
           else Inr (s, py_rstrip_char (CHR '';'')
                          (''OK|'' @ str_int (int (length inbox)) @ ''|''
                             @ concat (map inbox_line inbox))))
      | _ \<Rightarrow> Inr (s, ''ERROR|Invalid INBOX format''))"

definition handle_inbox :: "env \<Rightarrow> server \<Rightarrow> string \<Rightarrow> result" where
  "handle_inbox e s data = except_Exception s (handle_inbox_try e s data)"

definition sent_line :: "email \<Rightarrow> string" where
  "sent_line m =
     str_int (email_id m) @ ''~'' @ email_to m @ ''~'' @ email_subject m @ ''~''
       @ email_timestamp m @ '';''"

definition handle_sent_try :: "env \<Rightarrow> server \<Rightarrow> string \<Rightarrow> result" where
  "handle_sent_try e s data =
     (case py_split (CHR ''|'') data of
        [x, username] \<Rightarrow>
          (let sent = filter (\<lambda>m. email_from m = username) (emails s) in
           if sent = [] then Inr (s, ''EMPTY|No sent emails'')
           else Inr (s, py_rstrip_char (CHR '';'')
                          (''OK|'' @ str_int (int (length sent)) @ ''|''
                             @ concat (map sent_line sent))))
      | _ \<Rightarrow> Inr (s, ''ERROR|Invalid SENT format''))"

definition handle_sent :: "env \<Rightarrow> server \<Rightarrow> string \<Rightarrow> result" where
  "handle_sent e s data = except_Exception s (handle_sent_try e s data)"

text \<open>
  \<open>next((e for e in self.emails if e['id'] == msg_id), None)\<close> is the first e-mail with
  that id. \<open>email['read'] = True\<close> changes that dictionary where it stands in the list,
  and \<open>self.emails.remove(email)\<close> removes the first element equal to it.
\<close>

fun mark_read :: "int \<Rightarrow> email list \<Rightarrow> email list" where
  "mark_read i [] = []"
| "mark_read i (m # ms) =
     (if email_id m = i then m\<lparr>email_read := True\<rparr> # ms else m # mark_read i ms)"

definition read_response :: "email \<Rightarrow> string" where
  "read_response m =
     ''OK|'' @ str_int (email_id m) @ ''|'' @ email_from m @ ''|'' @ email_to m @ ''|''
       @ email_subject m @ ''|'' @ email_body m @ ''|'' @ email_timestamp m"

definition handle_read_try :: "env \<Rightarrow> server \<Rightarrow> string \<Rightarrow> result" where
  "handle_read_try e s data =
     (case py_split (CHR ''|'') data of
        [x, username, id_text] \<Rightarrow>
          (case py_int id_text of
             Inl err \<Rightarrow> Inl err
           | Inr msg_id \<Rightarrow>
               (case find (\<lambda>m. email_id m = msg_id) (emails s) of
                  None \<Rightarrow> Inr (s, ''ERROR|Email not found'')
                | Some email \<Rightarrow>
                    if email_to email \<noteq> username \<and> email_from email \<noteq> username
                    then Inr (s, ''ERROR|Access denied'')
                    else if email_to email = username
                    then Inr (save_server_data e (s\<lparr>emails := mark_read msg_id (emails s)\<rparr>),
                              read_response (email\<lparr>email_read := True\<rparr>))
                    else Inr (s, read_response email)))
      | _ \<Rightarrow> Inr (s, ''ERROR|Invalid READ format''))"

definition handle_read :: "env \<Rightarrow> server \<Rightarrow> string \<Rightarrow> result" where
  "handle_read e s data = except_Exception s (handle_read_try e s data)"

definition handle_delete_try :: "env \<Rightarrow> server \<Rightarrow> string \<Rightarrow> result" where
  "handle_delete_try e s data =
     (case py_split (CHR ''|'') data of
        [x, username, id_text] \<Rightarrow>
          (case py_int id_text of
             Inl err \<Rightarrow> Inl err
           | Inr msg_id \<Rightarrow>
               (case find (\<lambda>m. email_id m = msg_id) (emails s) of
                  None \<Rightarrow> Inr (s, ''ERROR|Email not found'')
                | Some email \<Rightarrow>
                    if email_to email \<noteq> username \<and> email_from email \<noteq> username
                    then Inr (s, ''ERROR|Access denied'')
                    else Inr (save_server_data e (s\<lparr>emails := remove1 email (emails s)\<rparr>),
                              ''OK|Email #'' @ str_int msg_id @ '' deleted'')))
      | _ \<Rightarrow> Inr (s, ''ERROR|Invalid DELETE format''))"

definition handle_delete :: "env \<Rightarrow> server \<Rightarrow> string \<Rightarrow> result" where
  "handle_delete e s data = except_Exception s (handle_delete_try e s data)"

text \<open>\<open>handle_forward\<close> appends the forwarded copy and returns: it does not save.\<close>

definition handle_forward_try :: "env \<Rightarrow> server \<Rightarrow> string \<Rightarrow> result" where
  "handle_forward_try e s data =
     (case py_split (CHR ''|'') data of
        [x, username, id_text, new_recipient] \<Rightarrow>
          (case py_int id_text of
             Inl err \<Rightarrow> Inl err
           | Inr msg_id \<Rightarrow>
               (case find (\<lambda>m. email_id m = msg_id) (emails s) of
                  None \<Rightarrow> Inr (s, ''ERROR|Email not found'')
                | Some original \<Rightarrow>
                    if email_to original \<noteq> username \<and> email_from original \<noteq> username
                    then Inr (s, ''ERROR|Access denied'')
                    else if map_of (users s) new_recipient = None
                    then Inr (s, ''ERROR|Recipient not found'')
                    else
                      (let s1 = s\<lparr>email_id_counter := email_id_counter s + 1\<rparr>;
                           forwarded =
                             \<lparr>email_id = email_id_counter s1, email_from = username,
                              email_to = new_recipient,
                              email_subject = ''FWD: '' @ email_subject original,
                              email_body = ''[Forwarded from '' @ email_from original @ '']''
                                @ [CHR 0x0A, CHR 0x0A] @ email_body original,
                              email_timestamp = now e, email_read = False\<rparr>
                       in Inr (s1\<lparr>emails := emails s1 @ [forwarded]\<rparr>,
                               ''OK|Email forwarded to '' @ new_recipient))))
      | _ \<Rightarrow> Inr (s, ''ERROR|Invalid FORWARD format''))"

definition handle_forward :: "env \<Rightarrow> server \<Rightarrow> string \<Rightarrow> result" where
  "handle_forward e s data = except_Exception s (handle_forward_try e s data)"

definition handle_export_try :: "env \<Rightarrow> server \<Rightarrow> string \<Rightarrow> result" where
  "handle_export_try e s data =
     (case py_split (CHR ''|'') data of
        [x, username, id_text] \<Rightarrow>
          (case py_int id_text of
             Inl err \<Rightarrow> Inl err
           | Inr msg_id \<Rightarrow>
               (case find (\<lambda>m. email_id m = msg_id) (emails s) of
                  None \<Rightarrow> Inr (s, ''ERROR|Email not found'')
                | Some email \<Rightarrow>
                    if email_to email \<noteq> username \<and> email_from email \<noteq> username
                    then Inr (s, ''ERROR|Access denied'')
                    else
                      (let filename = ''email_'' @ str_int msg_id @ ''_'' @ username @ ''.txt'';
                           content = ''From: '' @ email_from email @ [CHR 0x0A]
                             @ ''To: '' @ email_to email @ [CHR 0x0A]
                             @ ''Subject: '' @ email_subject email @ [CHR 0x0A]
                             @ ''Date: '' @ email_timestamp email @ [CHR 0x0A]
                             @ [CHR 0x0A] @ email_body email @ [CHR 0x0A]
                       in Inr (s, ''OK|Email exported to '' @ filename @ ''|'' @ content))))
      | _ \<Rightarrow> Inr (s, ''ERROR|Invalid EXPORT format''))"

definition handle_export :: "env \<Rightarrow> server \<Rightarrow> string \<Rightarrow> result" where
  "handle_export e s data = except_Exception s (handle_export_try e s data)"

definition handle_status_try :: "env \<Rightarrow> server \<Rightarrow> string \<Rightarrow> result" where
  "handle_status_try e s data =
     (case py_split (CHR ''|'') data of
        [x, username] \<Rightarrow>
          (let total_inbox = length (filter (\<lambda>m. email_to m = username) (emails s));
               unread = length (filter (\<lambda>m. email_to m = username \<and> \<not> email_read m) (emails s));
               total_sent = length (filter (\<lambda>m. email_from m = username) (emails s))
           in Inr (s, ''OK|Inbox: '' @ str_int (int total_inbox) @ '' (''
                        @ str_int (int unread) @ '' unread)|Sent: '' @ str_int (int total_sent)))
      | _ \<Rightarrow>
          Inr (s, ''OK|Users: '' @ str_int (int (length (users s))) @ ''|Emails: ''
                    @ str_int (int (length (emails s))) @ ''|Active Clients: ''
                    @ str_int (clients s)))"

definition handle_status :: "env \<Rightarrow> server \<Rightarrow> string \<Rightarrow> result" where
  "handle_status e s data = except_Exception s (handle_status_try e s data)"

section \<open>The dispatcher\<close>

definition handlers :: "(string \<times> (env \<Rightarrow> server \<Rightarrow> string \<Rightarrow> result)) list" where
  "handlers =
     [(''REGISTER'', handle_register), (''LOGIN'', handle_login), (''SEND'', handle_send),
      (''INBOX'', handle_inbox), (''SENT'', handle_sent), (''READ'', handle_read),
      (''DELETE'', handle_delete), (''FORWARD'', handle_forward),
      (''EXPORT'', handle_export), (''STATUS'', handle_status)]"

definition process_command :: "env \<Rightarrow> server \<Rightarrow> string \<Rightarrow> result" where
  "process_command e s data =
     (if data = [] then Inr (s, ''ERROR|Empty command'')
      else
        (case py_split (CHR ''|'') data of
           [] \<Rightarrow> Inl (IndexError ''list index out of range'')
         | command # rest \<Rightarrow>
             (case map_of handlers command of
                Some handler \<Rightarrow> handler e s data
              | None \<Rightarrow>
                  Inr (s, ''ERROR|Unknown command '' @ [CHR 0x27] @ command @ [CHR 0x27]))))"

section \<open>The server loop\<close>

text \<open>
  One pass of the body of \<open>run\<close> for one readable socket: the listening socket accepts
  a connection; a client socket delivers a frame, and an empty frame is a disconnect.
  An exception that \<open>process_command\<close> let through would end the server, so the store
  stays as it is.
\<close>

datatype event = Accept | Receive env string

fun step :: "server \<Rightarrow> event \<Rightarrow> server" where
  "step s Accept = s\<lparr>clients := clients s + 1\<rparr>"
| "step s (Receive e data) =
     (if data = [] then s\<lparr>clients := clients s - 1\<rparr>
      else (case process_command e s data of Inl err \<Rightarrow> s | Inr (s', response) \<Rightarrow> s'))"

text \<open>The states a server started without a database reaches.\<close>

definition run :: "event list \<Rightarrow> server" where
  "run evs = foldl step (load_server_data None) evs"

section \<open>Commands as the client writes them\<close>

definition register_command :: "string \<Rightarrow> string \<Rightarrow> string" where
  "register_command username password = ''REGISTER|'' @ username @ ''|'' @ password"

definition login_command :: "string \<Rightarrow> string \<Rightarrow> string" where
  "login_command username password = ''LOGIN|'' @ username @ ''|'' @ password"

definition read_command :: "string \<Rightarrow> int \<Rightarrow> string" where
  "read_command username msg_id = ''READ|'' @ username @ ''|'' @ str_int msg_id"

definition delete_command :: "string \<Rightarrow> int \<Rightarrow> string" where
  "delete_command username msg_id = ''DELETE|'' @ username @ ''|'' @ str_int msg_id"

definition forward_command :: "string \<Rightarrow> int \<Rightarrow> string \<Rightarrow> string" where
  "forward_command username msg_id recipient =
     ''FORWARD|'' @ username @ ''|'' @ str_int msg_id @ ''|'' @ recipient"

section \<open>Invariants of the store\<close>

text \<open>
  Ids are distinct and none exceeds the counter; and the ways one command changes the
  list of e-mails and the counter.
\<close>

definition store_ok :: "server \<Rightarrow> bool" where
  "store_ok s =
     (distinct (map email_id (emails s))
      \<and> list_all (\<lambda>m. email_id m \<le> email_id_counter s) (emails s))"

definition store_change :: "server \<Rightarrow> server \<Rightarrow> bool" where
  "store_change s s' =
     ((email_id_counter s' = email_id_counter s
        \<and> (emails s' = emails s \<or> (\<exists>i. emails s' = mark_read i (emails s))
             \<or> (\<exists>m. emails s' = remove1 m (emails s))))
      \<or> (email_id_counter s' = email_id_counter s + 1
          \<and> (\<exists>m. emails s' = emails s @ [m] \<and> email_id m = email_id_counter s + 1)))"

section \<open>A small mailbox used to instantiate the theorems\<close>

definition env0 :: env where
  "env0 = \<lparr>now = ''2025-01-01 10:00:00'', disk_writable = True\<rparr>"

definition mailbox_events :: "event list" where
  "mailbox_events =
     [Accept, Receive env0 ''REGISTER|alice|pw1'', Receive env0 ''REGISTER|bob|pw2'',
      Receive env0 ''SEND|alice|bob|Hi|Hello'']"

definition mail1 :: email where
  "mail1 =
     \<lparr>email_id = 1, email_from = ''alice'', email_to = ''bob'', email_subject = ''Hi'',
      email_body = ''Hello'', email_timestamp = ''2025-01-01 10:00:00'', email_read = False\<rparr>"

definition mail2 :: email where
  "mail2 =
     \<lparr>email_id = 2, email_from = ''bob'', email_to = ''alice'', email_subject = ''Re'',
      email_body = ''Yo'', email_timestamp = ''2025-01-01 10:00:00'', email_read = False\<rparr>"

definition mailbox :: server where
  "mailbox =
     \<lparr>users = [(''alice'', ''pw1''), (''bob'', ''pw2'')], emails = [mail1],
      email_id_counter = 1, clients = 1,
      server_db_json =
        Some \<lparr>db_users = [(''alice'', ''pw1''), (''bob'', ''pw2'')], db_emails = [mail1],
              db_email_id_counter = 1\<rparr>\<rparr>"

definition mailbox_deleted :: server where
  "mailbox_deleted =
     \<lparr>users = [(''alice'', ''pw1''), (''bob'', ''pw2'')], emails = [],
      email_id_counter = 1, clients = 1,
      server_db_json =
        Some \<lparr>db_users = [(''alice'', ''pw1''), (''bob'', ''pw2'')], db_emails = [],
              db_email_id_counter = 1\<rparr>\<rparr>"

section \<open>The client: subjects, cache and synchronisation\<close>

text \<open>
  \<open>compose_email\<close> strips the subject it reads and replaces the delimiters;
  \<open>resume_draft\<close> takes the new subject if one was typed, else the draft's, and replaces
  only \<open>|\<close> and \<open>~\<close>.
\<close>

definition compose_email_subject :: "string \<Rightarrow> string" where
  "compose_email_subject typed =
     py_replace (CHR '';'') (CHR '','')
       (py_replace (CHR ''~'') (CHR ''-'') (py_replace (CHR ''|'') (CHR ''-'') (py_strip typed)))"

definition resume_draft_subject :: "string \<Rightarrow> string \<Rightarrow> string" where
  "resume_draft_subject typed draft_subject =
     (let new_subject = py_strip typed;
          subject = (if new_subject \<noteq> [] then new_subject else draft_subject)
      in py_replace (CHR ''~'') (CHR ''-'') (py_replace (CHR ''|'') (CHR ''-'') subject))"

record inbox_entry =
  ie_id :: string
  ie_from :: string
  ie_subject :: string
  ie_timestamp :: string
  ie_read :: bool

record sent_entry =
  se_id :: string
  se_to :: string
  se_subject :: string
  se_timestamp :: string

record cache =
  inbox :: "inbox_entry list"
  sent :: "sent_entry list"
  last_sync :: "string option"

text \<open>The \<open>for email_str in emails_data.split(";")\<close> loops of the two functions.\<close>

fun sync_inbox_loop :: "string list \<Rightarrow> inbox_entry list" where
  "sync_inbox_loop [] = []"
| "sync_inbox_loop (email_str # rest) =
     (if py_strip email_str \<noteq> [] then
        (let email_parts = py_split (CHR ''~'') email_str in
         if 5 \<le> length email_parts
         then \<lparr>ie_id = email_parts ! 0, ie_from = email_parts ! 1,
               ie_subject = email_parts ! 2, ie_timestamp = email_parts ! 3,
               ie_read = (email_parts ! 4 = ''READ'')\<rparr> # sync_inbox_loop rest
         else sync_inbox_loop rest)
      else sync_inbox_loop rest)"





text \<open>The last field of a line of the \<open>INBOX\<close> listing.\<close>

definition status_text :: "email \<Rightarrow> string" where
  "status_text m = (if email_read m then ''READ'' else ''UNREAD'')"

section \<open>The wire codec\<close>

text \<open>
  A channel is the list of the segments still to be read, in the order in which they
  arrive; behind them the peer has closed its end. \<open>channel.recv(n)\<close> returns at most \<open>n\<close>
  bytes of the first segment that is not empty, and the empty byte string when nothing is
  left.
\<close>

type_synonym channel = "bytes list"

fun recv :: "nat \<Rightarrow> channel \<Rightarrow> bytes \<times> channel" where
  "recv n [] = ([], [])"
| "recv n (seg # rest) =
     (if seg = [] then recv n rest
      else if length seg \<le> n then (seg, rest)
      else (take n seg, drop n seg # rest))"

text \<open>
  The header, for a little-endian host whose C \<open>unsigned long\<close> has eight bytes:
  \<open>socket.htonl\<close> and \<open>socket.ntohl\<close> reverse the four bytes of a 32-bit value and raise
  \<open>OverflowError\<close> above it; \<open>struct.pack("L", v)\<close> writes \<open>v\<close> in \<open>struct.calcsize("L")\<close>
  bytes, lowest first; \<open>struct.unpack("L", b)\<close> raises \<open>struct.error\<close> unless \<open>b\<close> has that
  many bytes.
\<close>

fun le_bytes :: "nat \<Rightarrow> nat \<Rightarrow> nat list" where
  "le_bytes 0 v = []"
| "le_bytes (Suc k) v = (v mod 256) # le_bytes k (v div 256)"

fun le_value :: "nat list \<Rightarrow> nat" where
  "le_value [] = 0"
| "le_value (b # bs) = b + 256 * le_value bs"

definition calcsize_L :: nat where
  "calcsize_L = 8"

definition htonl :: "nat \<Rightarrow> exn + nat" where
  "htonl x =
     (if x < 2 ^ 32 then Inr (le_value (rev (le_bytes 4 x)))
      else Inl (OverflowError ''int larger than 32 bits''))"

definition ntohl :: "nat \<Rightarrow> exn + nat" where
  "ntohl x =
     (if x < 2 ^ 32 then Inr (le_value (rev (le_bytes 4 x)))
      else Inl (OverflowError ''int larger than 32 bits''))"

definition pack_L :: "nat \<Rightarrow> bytes" where
  "pack_L v = map char_of (le_bytes calcsize_L v)"

definition unpack_L :: "bytes \<Rightarrow> exn + nat" where
  "unpack_L b =
     (if length b = calcsize_L then Inr (le_value (map of_char b))
      else Inl (StructError ''unpack requires a buffer of 8 bytes''))"

text \<open>
  \<open>send\<close> pickles the tuple of its arguments and writes the header and the envelope.
  \<open>pickle.dumps\<close> and \<open>pickle.loads\<close> are parameters.
\<close>

definition send :: "(string list \<Rightarrow> bytes) \<Rightarrow> channel \<Rightarrow> string list \<Rightarrow> exn + channel" where
  "send dumps ch args =
     (let buffer = dumps args in
      case htonl (length buffer) of
        Inl err \<Rightarrow> Inl err
      | Inr v \<Rightarrow> Inr (ch @ [pack_L v, buffer]))"

text \<open>
  The loop \<open>while len(buf) < size: buf = channel.recv(size - len(buf))\<close> of \<open>receive\<close>. Each
  pass replaces \<open>buf\<close> by what it read. The loop need not end: \<open>None\<close> is a run that never
  returns.
\<close>

partial_function (option) recv_loop :: "nat \<Rightarrow> channel \<Rightarrow> bytes \<Rightarrow> (bytes \<times> channel) option" where
  "recv_loop sz ch buf =
     (if length buf < sz
      then (case recv (sz - length buf) ch of (b, ch') \<Rightarrow> recv_loop sz ch' b)
      else Some (buf, ch))"

text \<open>
  \<open>receive\<close> returns the first element of the unpickled tuple and what is left of the
  channel, or the empty string where the header cannot be unpacked; \<open>Inl\<close> is an exception
  it lets through. With size 0 the loop is skipped and \<open>buf\<close> is still the \<open>str\<close> it was
  initialised to, which \<open>pickle.loads\<close> refuses.
\<close>

definition receive ::
  "(bytes \<Rightarrow> exn + string list) \<Rightarrow> channel \<Rightarrow> (exn + (string \<times> channel)) option" where
  "receive loads ch =
     (case recv calcsize_L ch of
        (header, ch1) \<Rightarrow>
          (case unpack_L header of
             Inl err \<Rightarrow> Some (Inr ([], ch1))
           | Inr v \<Rightarrow>
               (case ntohl v of
                  Inl err \<Rightarrow> Some (Inl err)
                | Inr sz \<Rightarrow>
                    if sz = 0
                    then Some (Inl (TypeError (''a bytes-like object is required, not ''
                                           @ [CHR 0x27] @ ''str'' @ [CHR 0x27])))
                    else
                      (case recv_loop sz ch1 [] of
                         None \<Rightarrow> None
                       | Some (buf, ch2) \<Rightarrow>
                           (case loads buf of
                              Inl err \<Rightarrow> Some (Inl err)
                            | Inr args \<Rightarrow>
                                (case args of
                                   [] \<Rightarrow> Some (Inl (IndexError ''tuple index out of range''))
                                 | x # rest \<Rightarrow> Some (Inr (x, ch2))))))))"

text \<open>
  A state of the loop of \<open>receive\<close> that it never leaves: the buffer is shorter than the
  announced size, and it is empty only when the channel has nothing left.
\<close>

definition stuck :: "nat \<Rightarrow> channel \<Rightarrow> bytes \<Rightarrow> bool" where
  "stuck sz ch buf = (length buf < sz \<and> (concat ch = [] \<or> buf \<noteq> []))"

section \<open>Lemmas about the built-ins\<close>

lemma py_split_nonempty: "py_split sep s \<noteq> []"
  by (induction s) (auto split: list.splits)

lemma py_split_no_sep: "sep \<notin> set w \<Longrightarrow> py_split sep w = [w]"
  by (induction w) auto

lemma py_split_append: "sep \<notin> set w \<Longrightarrow> py_split sep (w @ sep # r) = w # py_split sep r"
  by (induction w) auto

lemma py_split_max_no_sep: "sep \<notin> set w \<Longrightarrow> py_split_max sep n w = [w]"
  by (induction w) (cases n; auto)+

lemma py_split_max_append:
  "sep \<notin> set w \<Longrightarrow> py_split_max sep (Suc n) (w @ sep # r) = w # py_split_max sep n r"
  by (induction w) auto

lemma length_py_split: "length (py_split sep s) = Suc (length (filter (\<lambda>c. c = sep) s))"
  by (induction s) (auto split: list.splits simp: py_split_nonempty)

lemma py_split_parts_no_sep: "w \<in> set (py_split sep s) \<Longrightarrow> sep \<notin> set w"
  by (induction s arbitrary: w) (auto split: if_splits list.splits)

lemma is_digit_digit_char: "d < 10 \<Longrightarrow> is_digit (digit_char d)"
  by (simp add: is_digit_def digit_char_def)

lemma of_char_digit_char: "d < 10 \<Longrightarrow> (of_char (digit_char d) :: nat) = 48 + d"
  by (simp add: digit_char_def)

lemma str_nat_digits: "list_all is_digit (str_nat n)"
  by (induction n rule: str_nat.induct) (subst str_nat.simps, simp add: is_digit_digit_char)

lemma str_nat_nonempty: "str_nat n \<noteq> []"
  by (subst str_nat.simps) simp

lemma digits_ok_all_digits: "ds \<noteq> [] \<Longrightarrow> list_all is_digit ds \<Longrightarrow> digits_ok ds"
  by (induction ds rule: digits_ok.induct) (auto simp: is_digit_def)

lemma is_digit_not_special:
  "is_digit c \<Longrightarrow> \<not> int_isspace c \<and> c \<noteq> CHR ''_'' \<and> c \<noteq> CHR ''-'' \<and> c \<noteq> CHR ''+'' \<and> c \<noteq> CHR ''|'' \<and> c \<noteq> CHR ''~'' \<and> c \<noteq> CHR '';''"
  by (auto simp: is_digit_def int_isspace_def)

lemma filter_digits: "list_all is_digit ds \<Longrightarrow> filter (\<lambda>c. c \<noteq> CHR ''_'') ds = ds"
  by (induction ds) (auto dest: is_digit_not_special)

lemma digits_value_str_nat: "digits_value (str_nat n) = n"
proof (induction n rule: str_nat.induct)
  case (1 n)
  show ?case
  proof (cases "n < 10")
    case True
    then have "is_digit (digit_char n)"
      by (rule is_digit_digit_char)
    then have "digit_char n \<noteq> CHR ''_''"
      by (auto dest: is_digit_not_special)
    with True show ?thesis
      by (subst str_nat.simps) (simp add: digits_value_def of_char_digit_char)
  next
    case False
    have all: "list_all is_digit (str_nat (n div 10) @ [digit_char (n mod 10)])"
      by (simp add: str_nat_digits is_digit_digit_char)
    have "digits_value (str_nat (n div 10)) = n div 10"
      using 1 False by simp
    then have "foldl (\<lambda>acc c. 10 * acc + (of_char c - 48)) 0 (str_nat (n div 10)) = n div 10"
      by (simp add: digits_value_def filter_digits str_nat_digits)
    then have "digits_value (str_nat (n div 10) @ [digit_char (n mod 10)]) = n"
      unfolding digits_value_def filter_digits[OF all]
      by (simp add: of_char_digit_char)
    with False show ?thesis
      by (subst str_nat.simps) simp
  qed
qed

lemma strip_digits:
  assumes "ds \<noteq> []" "list_all is_digit ds" "pre = [] \<or> pre = [CHR ''-'']"
  shows "rev (dropWhile int_isspace (rev (dropWhile int_isspace (pre @ ds)))) = pre @ ds"
proof -
  have "is_digit (hd ds)"
    using assms by (cases ds) auto
  then have "\<not> int_isspace (hd ds)"
    by (auto dest: is_digit_not_special)
  moreover have "\<not> int_isspace (CHR ''-'')"
    by (simp add: int_isspace_def)
  ultimately have h: "\<not> int_isspace (hd (pre @ ds))"
    using assms by auto
  have "last ds \<in> set ds"
    using assms by simp
  then have "is_digit (last ds)"
    using assms by (simp add: list_all_iff)
  then have l: "\<not> int_isspace (last (pre @ ds))"
    using assms by (simp add: is_digit_not_special)
  have ne: "pre @ ds \<noteq> []" using assms by simp
  have 1: "dropWhile int_isspace (pre @ ds) = pre @ ds"
    using h ne by (cases "pre @ ds") auto
  have 2: "dropWhile int_isspace (rev (pre @ ds)) = rev (pre @ ds)"
    using l ne by (cases "rev (pre @ ds)") (auto simp: last_rev hd_rev[symmetric])
  show ?thesis unfolding 1 2 by simp
qed

lemma py_int_str_int: "py_int (str_int i) = Inr i"
proof (cases "i < 0")
  case True
  let ?ds = "str_nat (nat (- i))"
  have s: "rev (dropWhile int_isspace (rev (dropWhile int_isspace (CHR ''-'' # ?ds)))) = CHR ''-'' # ?ds"
    using strip_digits[of ?ds "[CHR ''-'']"] by (simp add: str_nat_nonempty str_nat_digits)
  have ok: "digits_ok ?ds"
    by (simp add: digits_ok_all_digits str_nat_nonempty str_nat_digits)
  have "py_int (CHR ''-'' # ?ds) = Inr (- int (digits_value ?ds))"
    unfolding py_int_def s by (simp add: ok)
  with True show ?thesis
    by (simp add: str_int_def digits_value_str_nat)
next
  case False
  let ?ds = "str_nat (nat i)"
  have s: "rev (dropWhile int_isspace (rev (dropWhile int_isspace ?ds))) = ?ds"
    using strip_digits[of ?ds "[]"] by (simp add: str_nat_nonempty str_nat_digits)
  obtain c r where cr: "?ds = c # r"
    using str_nat_nonempty[of "nat i"] by (cases ?ds) auto
  have "is_digit c"
    using str_nat_digits[of "nat i"] cr by simp
  then have c: "c \<noteq> CHR ''-''" "c \<noteq> CHR ''+''"
    by (auto dest: is_digit_not_special)
  have "digits_ok ?ds"
    by (simp add: digits_ok_all_digits str_nat_nonempty str_nat_digits)
  then have ok: "digits_ok (c # r)"
    by (simp only: cr)
  have "py_int ?ds = Inr (int (digits_value ?ds))"
    unfolding py_int_def s unfolding cr using c ok by simp
  with False show ?thesis
    by (simp add: str_int_def digits_value_str_nat)
qed

lemma str_nat_no_sep: "c \<in> set (str_nat n) \<Longrightarrow> c \<noteq> CHR ''|'' \<and> c \<noteq> CHR ''~'' \<and> c \<noteq> CHR '';''"
proof -
  assume "c \<in> set (str_nat n)"
  then have "is_digit c"
    using str_nat_digits[of n] by (simp add: list_all_iff)
  then show ?thesis
    by (simp add: is_digit_not_special)
qed

lemma str_int_no_sep: "c \<in> set (str_int i) \<Longrightarrow> c \<noteq> CHR ''|'' \<and> c \<noteq> CHR ''~'' \<and> c \<noteq> CHR '';''"
  by (cases "i < 0") (auto simp: str_int_def dest: str_nat_no_sep)

section \<open>Every command keeps the store consistent\<close>

lemma store_change_refl: "emails s' = emails s \<Longrightarrow> email_id_counter s' = email_id_counter s \<Longrightarrow> store_change s s'"
  by (simp add: store_change_def)

lemma handle_register_change: "handle_register e s d = Inr (s', r) \<Longrightarrow> store_change s s'"
  by (auto simp: handle_register_def handle_register_try_def except_Exception_def
      save_server_data_def store_change_def split: list.splits if_splits)

lemma handle_login_change: "handle_login e s d = Inr (s', r) \<Longrightarrow> store_change s s'"
  by (auto simp: handle_login_def handle_login_try_def except_Exception_def
      store_change_def split: list.splits if_splits option.splits)

lemma handle_send_change: "handle_send e s d = Inr (s', r) \<Longrightarrow> store_change s s'"
  by (auto simp: handle_send_def handle_send_try_def except_Exception_def
      save_server_data_def store_change_def Let_def split: list.splits if_splits)

lemma handle_inbox_change: "handle_inbox e s d = Inr (s', r) \<Longrightarrow> store_change s s'"
  by (auto simp: handle_inbox_def handle_inbox_try_def except_Exception_def
      store_change_def Let_def split: list.splits if_splits)

lemma handle_sent_change: "handle_sent e s d = Inr (s', r) \<Longrightarrow> store_change s s'"
  by (auto simp: handle_sent_def handle_sent_try_def except_Exception_def
      store_change_def Let_def split: list.splits if_splits)

lemma handle_read_change: "handle_read e s d = Inr (s', r) \<Longrightarrow> store_change s s'"
  by (auto simp: handle_read_def handle_read_try_def except_Exception_def
      save_server_data_def store_change_def split: list.splits if_splits option.splits sum.splits)

lemma handle_delete_change: "handle_delete e s d = Inr (s', r) \<Longrightarrow> store_change s s'"
  by (auto simp: handle_delete_def handle_delete_try_def except_Exception_def
      save_server_data_def store_change_def split: list.splits if_splits option.splits sum.splits)

lemma handle_forward_change: "handle_forward e s d = Inr (s', r) \<Longrightarrow> store_change s s'"
  by (auto simp: handle_forward_def handle_forward_try_def except_Exception_def
      store_change_def Let_def split: list.splits if_splits option.splits sum.splits)

lemma handle_export_change: "handle_export e s d = Inr (s', r) \<Longrightarrow> store_change s s'"
  by (auto simp: handle_export_def handle_export_try_def except_Exception_def
      store_change_def Let_def split: list.splits if_splits option.splits sum.splits)

lemma handle_status_change: "handle_status e s d = Inr (s', r) \<Longrightarrow> store_change s s'"
  by (auto simp: handle_status_def handle_status_try_def except_Exception_def
      store_change_def Let_def split: list.splits if_splits)

lemma handlers_cases:
  assumes "map_of handlers c = Some h"
  shows "h = handle_register \<or> h = handle_login \<or> h = handle_send \<or> h = handle_inbox
       \<or> h = handle_sent \<or> h = handle_read \<or> h = handle_delete \<or> h = handle_forward
       \<or> h = handle_export \<or> h = handle_status"
  using assms by (simp add: handlers_def split: if_splits)

lemma process_command_change:
  assumes "process_command e s d = Inr (s', r)"
  shows "store_change s s'"
proof (cases "d = []")
  case True
  with assms show ?thesis
    by (simp add: process_command_def store_change_refl)
next
  case False
  obtain c rest where c: "py_split (CHR ''|'') d = c # rest"
    using py_split_nonempty[of "CHR ''|''" d] by (cases "py_split (CHR ''|'') d") auto
  show ?thesis
  proof (cases "map_of handlers c")
    case None
    with assms False c show ?thesis
      by (simp add: process_command_def store_change_refl)
  next
    case (Some h)
    with assms False c have "h e s d = Inr (s', r)"
      by (simp add: process_command_def)
    with handlers_cases[OF Some] show ?thesis
      by (auto intro: handle_register_change handle_login_change handle_send_change
          handle_inbox_change handle_sent_change handle_read_change handle_delete_change
          handle_forward_change handle_export_change handle_status_change)
  qed
qed

lemma step_change: "store_change s (step s ev)"
proof (cases ev)
  case Accept
  then show ?thesis by (simp add: store_change_refl)
next
  case (Receive e d)
  show ?thesis
  proof (cases "process_command e s d")
    case (Inl err)
    with Receive show ?thesis by (simp add: store_change_refl)
  next
    case (Inr v)
    then obtain s' r where "process_command e s d = Inr (s', r)" by (cases v) auto
    with Receive show ?thesis
      by (auto simp: store_change_refl dest: process_command_change)
  qed
qed

lemma ids_mark_read: "map email_id (mark_read i ms) = map email_id ms"
  by (induction ms) auto

lemma store_change_counter: "store_change s s' \<Longrightarrow> email_id_counter s \<le> email_id_counter s'"
  by (auto simp: store_change_def)

lemma ids_remove1: "set (map email_id (remove1 m ms)) \<subseteq> set (map email_id ms)"
  using set_remove1_subset[of m ms] by auto

lemma distinct_ids_remove1: "distinct (map email_id ms) \<Longrightarrow> distinct (map email_id (remove1 m ms))"
proof (induction ms)
  case Nil
  show ?case by simp
next
  case (Cons a ms)
  have "email_id a \<notin> set (map email_id (remove1 m ms))"
    using Cons.prems ids_remove1[of m ms] by auto
  with Cons show ?case by auto
qed

lemma store_change_ids:
  assumes "store_change s s'" "i \<in> set (map email_id (emails s'))"
  shows "i \<in> set (map email_id (emails s))
       \<or> (i = email_id_counter s + 1 \<and> email_id_counter s' = email_id_counter s + 1)"
  using assms(1) unfolding store_change_def
proof (elim disjE conjE exE)
  assume "emails s' = emails s"
  with assms(2) show ?thesis by simp
next
  fix j assume "emails s' = mark_read j (emails s)"
  with assms(2) show ?thesis by (simp only: ids_mark_read) simp
next
  fix m assume "emails s' = remove1 m (emails s)"
  with assms(2) show ?thesis using ids_remove1[of m "emails s"] by auto
next
  fix m assume "email_id_counter s' = email_id_counter s + 1" "emails s' = emails s @ [m]"
    "email_id m = email_id_counter s + 1"
  with assms(2) show ?thesis by auto
qed

lemma store_ok_ids:
  "store_ok s = (distinct (map email_id (emails s))
     \<and> (\<forall>i \<in> set (map email_id (emails s)). i \<le> email_id_counter s))"
  by (auto simp: store_ok_def list_all_iff)

lemma store_change_ok:
  assumes "store_change s s'" "store_ok s"
  shows "store_ok s'"
proof -
  have d: "distinct (map email_id (emails s))"
    and b: "\<And>i. i \<in> set (map email_id (emails s)) \<Longrightarrow> i \<le> email_id_counter s"
    using assms(2) unfolding store_ok_ids by blast+
  have "distinct (map email_id (emails s'))"
    using assms(1) unfolding store_change_def
  proof (elim disjE conjE exE)
    assume "emails s' = emails s"
    with d show ?thesis by simp
  next
    fix j assume "emails s' = mark_read j (emails s)"
    with d show ?thesis by (simp only: ids_mark_read)
  next
    fix m assume "emails s' = remove1 m (emails s)"
    with d show ?thesis by (simp only: distinct_ids_remove1)
  next
    fix m assume "emails s' = emails s @ [m]" "email_id m = email_id_counter s + 1"
    with d b[of "email_id_counter s + 1"] show ?thesis by auto
  qed
  moreover have "i \<le> email_id_counter s'" if "i \<in> set (map email_id (emails s'))" for i
    using store_change_ids[OF assms(1) that] store_change_counter[OF assms(1)] b[of i]
    by auto
  ultimately show ?thesis
    by (simp add: store_ok_ids)
qed

lemma store_ok_init: "store_ok (load_server_data None)"
  by (simp add: store_ok_def load_server_data_def)

lemma foldl_step_ok: "store_ok s \<Longrightarrow> store_ok (foldl step s evs)"
  by (induction evs arbitrary: s) (auto intro: store_change_ok step_change)

lemma run_ok: "store_ok (run evs)"
  by (simp add: run_def foldl_step_ok store_ok_init)

lemma foldl_step_counter: "email_id_counter s \<le> email_id_counter (foldl step s evs)"
proof (induction evs arbitrary: s)
  case Nil
  show ?case by simp
next
  case (Cons ev evs)
  have "email_id_counter s \<le> email_id_counter (step s ev)"
    by (rule store_change_counter[OF step_change])
  also have "\<dots> \<le> email_id_counter (foldl step (step s ev) evs)"
    by (rule Cons.IH)
  finally show ?case by simp
qed

section \<open>Commands of the client at the dispatcher\<close>

lemma str_int_no_pipe: "CHR ''|'' \<notin> set (str_int i)"
proof
  assume "CHR ''|'' \<in> set (str_int i)"
  from str_int_no_sep[OF this] show False by simp
qed

lemma str_int_inj:
  assumes "str_int i = str_int j"
  shows "i = j"
proof -
  have "(Inr i :: exn + int) = py_int (str_int i)"
    by (simp only: py_int_str_int)
  also have "\<dots> = py_int (str_int j)"
    by (simp only: assms)
  also have "\<dots> = Inr j"
    by (simp only: py_int_str_int)
  finally show ?thesis
    by simp
qed

lemma split_read_command:
  "CHR ''|'' \<notin> set u \<Longrightarrow> py_split (CHR ''|'') (read_command u i) = [''READ'', u, str_int i]"
  by (simp add: read_command_def py_split_append py_split_no_sep str_int_no_pipe)

lemma split_delete_command:
  "CHR ''|'' \<notin> set u \<Longrightarrow> py_split (CHR ''|'') (delete_command u i) = [''DELETE'', u, str_int i]"
  by (simp add: delete_command_def py_split_append py_split_no_sep str_int_no_pipe)

lemma split_forward_command:
  "CHR ''|'' \<notin> set u \<Longrightarrow> CHR ''|'' \<notin> set r \<Longrightarrow>
     py_split (CHR ''|'') (forward_command u i r) = [''FORWARD'', u, str_int i, r]"
  by (simp add: forward_command_def py_split_append py_split_no_sep str_int_no_pipe)

lemma read_command_nonempty: "read_command u i \<noteq> []"
  by (simp add: read_command_def)

lemma find_by_id:
  "distinct (map email_id ms) \<Longrightarrow> m \<in> set ms \<Longrightarrow> find (\<lambda>x. email_id x = email_id m) ms = Some m"
  by (induction ms) auto

lemma mark_read_map:
  "distinct (map email_id ms) \<Longrightarrow>
     mark_read i ms = map (\<lambda>x. if email_id x = i then x\<lparr>email_read := True\<rparr> else x) ms"
proof (induction ms)
  case Nil
  show ?case by simp
next
  case (Cons a ms)
  have "email_id a \<notin> email_id ` set ms"
    using Cons.prems by simp
  then have "email_id x \<noteq> email_id a" if "x \<in> set ms" for x
    using that by (metis imageI)
  then have "map (\<lambda>x. if email_id x = email_id a then x\<lparr>email_read := True\<rparr> else x) ms = ms"
    by (intro map_idI) simp
  with Cons show ?case by auto
qed

lemma read_response_flag: "read_response (m\<lparr>email_read := b\<rparr>) = read_response m"
  by (simp add: read_response_def)

lemma process_command_dispatch:
  "d \<noteq> [] \<Longrightarrow> py_split (CHR ''|'') d = c # rest \<Longrightarrow> map_of handlers c = Some h \<Longrightarrow>
     process_command e s d = h e s d"
  by (simp add: process_command_def)

lemma handlers_READ: "map_of handlers ''READ'' = Some handle_read"
  by (simp add: handlers_def)

lemma handlers_DELETE: "map_of handlers ''DELETE'' = Some handle_delete"
  by (simp add: handlers_def)

lemma handlers_FORWARD: "map_of handlers ''FORWARD'' = Some handle_forward"
  by (simp add: handlers_def)

lemma handle_read_parsed:
  assumes "py_split (CHR ''|'') d = [x, u, t]" and "py_int t = Inr i"
  shows "handle_read e s d =
     (case find (\<lambda>m. email_id m = i) (emails s) of
        None \<Rightarrow> Inr (s, ''ERROR|Email not found'')
      | Some email \<Rightarrow>
          if email_to email \<noteq> u \<and> email_from email \<noteq> u then Inr (s, ''ERROR|Access denied'')
          else if email_to email = u
          then Inr (save_server_data e (s\<lparr>emails := mark_read i (emails s)\<rparr>), read_response email)
          else Inr (s, read_response email))"
  using assms
  by (simp add: handle_read_def handle_read_try_def except_Exception_def read_response_flag
      split: option.splits)

lemma process_read_command:
  assumes "CHR ''|'' \<notin> set u"
  shows "process_command e s (read_command u i) =
     (case find (\<lambda>m. email_id m = i) (emails s) of
        None \<Rightarrow> Inr (s, ''ERROR|Email not found'')
      | Some email \<Rightarrow>
          if email_to email \<noteq> u \<and> email_from email \<noteq> u then Inr (s, ''ERROR|Access denied'')
          else if email_to email = u
          then Inr (save_server_data e (s\<lparr>emails := mark_read i (emails s)\<rparr>), read_response email)
          else Inr (s, read_response email))"
  using process_command_dispatch[OF read_command_nonempty split_read_command[OF assms] handlers_READ]
    handle_read_parsed[OF split_read_command[OF assms] py_int_str_int]
  by simp

lemma delete_command_nonempty: "delete_command u i \<noteq> []"
  by (simp add: delete_command_def)

lemma forward_command_nonempty: "forward_command u i r \<noteq> []"
  by (simp add: forward_command_def)

lemma process_delete_any: "process_command e s (delete_command u i) = handle_delete e s (delete_command u i)"
proof -
  have "py_split (CHR ''|'') (delete_command u i)
      = ''DELETE'' # py_split (CHR ''|'') (u @ ''|'' @ str_int i)"
    by (simp add: delete_command_def)
  from process_command_dispatch[OF delete_command_nonempty this handlers_DELETE]
  show ?thesis .
qed

lemma handle_delete_ok:
  assumes "handle_delete e s d = Inr (s1, ''OK|Email #'' @ str_int i @ '' deleted'')"
  shows "\<exists>m. find (\<lambda>x. email_id x = i) (emails s) = Some m
           \<and> s1 = save_server_data e (s\<lparr>emails := remove1 m (emails s)\<rparr>)"
  using assms
  by (auto simp: handle_delete_def handle_delete_try_def except_Exception_def
      split: list.splits sum.splits option.splits if_splits dest!: str_int_inj)

lemma handle_delete_parsed:
  assumes "py_split (CHR ''|'') d = [x, u, t]" and "py_int t = Inr i"
  shows "handle_delete e s d =
     (case find (\<lambda>m. email_id m = i) (emails s) of
        None \<Rightarrow> Inr (s, ''ERROR|Email not found'')
      | Some email \<Rightarrow>
          if email_to email \<noteq> u \<and> email_from email \<noteq> u then Inr (s, ''ERROR|Access denied'')
          else Inr (save_server_data e (s\<lparr>emails := remove1 email (emails s)\<rparr>),
                    ''OK|Email #'' @ str_int i @ '' deleted''))"
  using assms
  by (simp add: handle_delete_def handle_delete_try_def except_Exception_def
      split: option.splits)

lemma process_delete_command:
  assumes "CHR ''|'' \<notin> set u"
  shows "process_command e s (delete_command u i) =
     (case find (\<lambda>m. email_id m = i) (emails s) of
        None \<Rightarrow> Inr (s, ''ERROR|Email not found'')
      | Some email \<Rightarrow>
          if email_to email \<noteq> u \<and> email_from email \<noteq> u then Inr (s, ''ERROR|Access denied'')
          else Inr (save_server_data e (s\<lparr>emails := remove1 email (emails s)\<rparr>),
                    ''OK|Email #'' @ str_int i @ '' deleted''))"
  using handle_delete_parsed[OF split_delete_command[OF assms] py_int_str_int]
  by (simp only: process_delete_any)

lemma emails_save [simp]: "emails (save_server_data e s) = emails s"
  by (simp add: save_server_data_def)

lemma counter_save [simp]: "email_id_counter (save_server_data e s) = email_id_counter s"
  by (simp add: save_server_data_def)

lemma users_save [simp]: "users (save_server_data e s) = users s"
  by (simp add: save_server_data_def)

lemma id_removed:
  "distinct (map email_id ms) \<Longrightarrow> m \<in> set ms \<Longrightarrow> email_id m \<notin> set (map email_id (remove1 m ms))"
proof (induction ms)
  case Nil
  then show ?case by simp
next
  case (Cons a ms)
  show ?case
  proof (cases "a = m")
    case True
    with Cons.prems show ?thesis by simp
  next
    case False
    then have mm: "m \<in> set ms"
      using Cons.prems by simp
    have "email_id a \<notin> email_id ` set ms"
      using Cons.prems by simp
    with mm have ne: "email_id m \<noteq> email_id a"
      by (metis imageI)
    have "email_id m \<notin> set (map email_id (remove1 m ms))"
      using Cons.IH Cons.prems mm by simp
    with False ne show ?thesis by simp
  qed
qed

lemma retired_change:
  assumes "store_change s s'" "store_ok s" "i \<le> email_id_counter s"
    "i \<notin> set (map email_id (emails s))"
  shows "store_ok s' \<and> i \<le> email_id_counter s' \<and> i \<notin> set (map email_id (emails s'))"
proof -
  have "i \<le> email_id_counter s'"
    using store_change_counter[OF assms(1)] assms(3) by simp
  moreover have "i \<notin> set (map email_id (emails s'))"
    using store_change_ids[OF assms(1), of i] assms(3,4) by auto
  ultimately show ?thesis
    using store_change_ok[OF assms(1,2)] by simp
qed

lemma retired_foldl:
  "store_ok s \<Longrightarrow> i \<le> email_id_counter s \<Longrightarrow> i \<notin> set (map email_id (emails s)) \<Longrightarrow>
     i \<notin> set (map email_id (emails (foldl step s evs)))"
proof (induction evs arbitrary: s)
  case Nil
  then show ?case by simp
next
  case (Cons ev evs)
  from retired_change[OF step_change Cons.prems, of ev]
  have "store_ok (step s ev)" and "i \<le> email_id_counter (step s ev)"
    and "i \<notin> set (map email_id (emails (step s ev)))"
    by blast+
  then have "i \<notin> set (map email_id (emails (foldl step (step s ev) evs)))"
    by (rule Cons.IH)
  then show ?case
    by simp
qed

lemma handle_forward_parsed:
  assumes "py_split (CHR ''|'') d = [x, u, t, r]" and "py_int t = Inr i"
  shows "handle_forward e s d =
     (case find (\<lambda>m. email_id m = i) (emails s) of
        None \<Rightarrow> Inr (s, ''ERROR|Email not found'')
      | Some original \<Rightarrow>
          if email_to original \<noteq> u \<and> email_from original \<noteq> u
          then Inr (s, ''ERROR|Access denied'')
          else if map_of (users s) r = None then Inr (s, ''ERROR|Recipient not found'')
          else Inr (s\<lparr>email_id_counter := email_id_counter s + 1,
                      emails := emails s @
                        [\<lparr>email_id = email_id_counter s + 1, email_from = u, email_to = r,
                          email_subject = ''FWD: '' @ email_subject original,
                          email_body = ''[Forwarded from '' @ email_from original @ '']''
                            @ [CHR 0x0A, CHR 0x0A] @ email_body original,
                          email_timestamp = now e, email_read = False\<rparr>]\<rparr>,
                    ''OK|Email forwarded to '' @ r))"
  using assms
  by (auto simp: handle_forward_def handle_forward_try_def except_Exception_def Let_def
      split: option.splits)

section \<open>Accounts\<close>

lemma split_register_command:
  "CHR ''|'' \<notin> set u \<Longrightarrow>
     py_split_max (CHR ''|'') 2 (register_command u p) = [''REGISTER'', u, p]"
  by (simp add: register_command_def numeral_2_eq_2 py_split_max_append)

lemma handlers_REGISTER: "map_of handlers ''REGISTER'' = Some handle_register"
  by (simp add: handlers_def)

lemma handlers_LOGIN: "map_of handlers ''LOGIN'' = Some handle_login"
  by (simp add: handlers_def)

lemma process_register_any:
  "process_command e s (register_command u p) = handle_register e s (register_command u p)"
proof -
  have sp: "py_split (CHR ''|'') (register_command u p)
      = ''REGISTER'' # py_split (CHR ''|'') (u @ ''|'' @ p)"
    by (simp add: register_command_def)
  have ne: "register_command u p \<noteq> []"
    by (simp add: register_command_def)
  show ?thesis
    by (rule process_command_dispatch[OF ne sp handlers_REGISTER])
qed

lemma process_login_any:
  "process_command e s (login_command u p) = handle_login e s (login_command u p)"
proof -
  have sp: "py_split (CHR ''|'') (login_command u p)
      = ''LOGIN'' # py_split (CHR ''|'') (u @ ''|'' @ p)"
    by (simp add: login_command_def)
  have ne: "login_command u p \<noteq> []"
    by (simp add: login_command_def)
  show ?thesis
    by (rule process_command_dispatch[OF ne sp handlers_LOGIN])
qed

lemma split_login_piped:
  assumes "CHR ''|'' \<notin> set u" and "CHR ''|'' \<in> set p"
  shows "\<exists>a b rest. py_split (CHR ''|'') (login_command u p) = ''LOGIN'' # u # a # b # rest"
proof -
  have "filter (\<lambda>c. c = CHR ''|'') p \<noteq> []"
    using assms(2) by (simp add: filter_empty_conv)
  then have "2 \<le> length (py_split (CHR ''|'') p)"
    by (cases "filter (\<lambda>c. c = CHR ''|'') p") (simp_all add: length_py_split)
  then obtain a b rest where "py_split (CHR ''|'') p = a # b # rest"
    by (cases "py_split (CHR ''|'') p" rule: list.exhaust[case_names Nil Cons])
       (auto simp: Suc_le_eq neq_Nil_conv)
  then show ?thesis
    using assms(1) by (simp add: login_command_def py_split_append)
qed

lemma login_piped_invalid:
  assumes "CHR ''|'' \<notin> set u" and "CHR ''|'' \<in> set p"
  shows "process_command e s (login_command u p) = Inr (s, ''ERROR|Invalid LOGIN format'')"
proof -
  obtain a b rest where "py_split (CHR ''|'') (login_command u p) = ''LOGIN'' # u # a # b # rest"
    using split_login_piped[OF assms] by blast
  then show ?thesis
    by (simp add: process_login_any handle_login_def handle_login_try_def except_Exception_def)
qed

lemma login_never_welcomes:
  assumes "map_of (users s) u = Some p" and "CHR ''|'' \<in> set p"
  shows "handle_login e s d \<noteq> Inr (s', ''OK|Welcome '' @ u @ ''!'')"
proof
  assume w: "handle_login e s d = Inr (s', ''OK|Welcome '' @ u @ ''!'')"
  then obtain x where "py_split (CHR ''|'') d = [x, u, p]"
    using assms(1)
    by (auto simp: handle_login_def handle_login_try_def except_Exception_def
        split: list.splits option.splits if_splits)
  then have "p \<in> set (py_split (CHR ''|'') d)"
    by simp
  then have "CHR ''|'' \<notin> set p"
    by (rule py_split_parts_no_sep)
  with assms(2) show False
    by simp
qed

lemma handle_register_users:
  "handle_register e s d = Inr (s', r) \<Longrightarrow> map_of (users s) u = Some p \<Longrightarrow>
     map_of (users s') u = Some p"
  by (auto simp: handle_register_def handle_register_try_def except_Exception_def
      update_conv' split: list.splits if_splits)

lemma other_handlers_users:
  assumes "h = handle_login \<or> h = handle_send \<or> h = handle_inbox \<or> h = handle_sent
         \<or> h = handle_read \<or> h = handle_delete \<or> h = handle_forward
         \<or> h = handle_export \<or> h = handle_status"
    and "h e s d = Inr (s', r)"
  shows "users s' = users s"
  using assms
  by (elim disjE)
     (auto simp: handle_login_def handle_login_try_def handle_send_def handle_send_try_def
        handle_inbox_def handle_inbox_try_def handle_sent_def handle_sent_try_def
        handle_read_def handle_read_try_def handle_delete_def handle_delete_try_def
        handle_forward_def handle_forward_try_def handle_export_def handle_export_try_def
        handle_status_def handle_status_try_def except_Exception_def Let_def
      split: list.splits if_splits option.splits sum.splits)

lemma process_command_users:
  assumes "process_command e s d = Inr (s', r)" and "map_of (users s) u = Some p"
  shows "map_of (users s') u = Some p"
proof (cases "d = []")
  case True
  with assms show ?thesis
    by (simp add: process_command_def)
next
  case False
  obtain c rest where c: "py_split (CHR ''|'') d = c # rest"
    using py_split_nonempty[of "CHR ''|''" d] by (cases "py_split (CHR ''|'') d") auto
  show ?thesis
  proof (cases "map_of handlers c")
    case None
    with assms False c show ?thesis
      by (simp add: process_command_def)
  next
    case (Some h)
    with assms False c have r: "h e s d = Inr (s', r)"
      by (simp add: process_command_def)
    show ?thesis
    proof (cases "h = handle_register")
      case True
      with r assms(2) show ?thesis
        by (auto dest: handle_register_users)
    next
      case False
      with handlers_cases[OF Some] r have "users s' = users s"
        by (intro other_handlers_users[of h e s d s' r]) auto
      with assms(2) show ?thesis
        by simp
    qed
  qed
qed

lemma step_users: "map_of (users s) u = Some p \<Longrightarrow> map_of (users (step s ev)) u = Some p"
proof (cases ev)
  case Accept
  then show "map_of (users s) u = Some p \<Longrightarrow> ?thesis" by simp
next
  case (Receive e d)
  assume u: "map_of (users s) u = Some p"
  show ?thesis
  proof (cases "process_command e s d")
    case (Inl err)
    with Receive u show ?thesis by simp
  next
    case (Inr v)
    then obtain s' r where "process_command e s d = Inr (s', r)" by (cases v) auto
    with Receive u show ?thesis
      by (auto dest: process_command_users)
  qed
qed

lemma foldl_step_users:
  "map_of (users s) u = Some p \<Longrightarrow> map_of (users (foldl step s evs)) u = Some p"
  by (induction evs arbitrary: s) (auto intro: step_users)

section \<open>What the dispatcher returns\<close>

lemma except_Exception_returns: "\<exists>s' response. except_Exception s r = Inr (s', response)"
  by (cases r) (auto simp: except_Exception_def)

lemma handlers_return:
  assumes "map_of handlers c = Some h"
  shows "\<exists>s' response. h e s d = Inr (s', response)"
  using handlers_cases[OF assms]
  by (elim disjE)
     (simp_all add: handle_register_def handle_login_def handle_send_def handle_inbox_def
        handle_sent_def handle_read_def handle_delete_def handle_forward_def
        handle_export_def handle_status_def except_Exception_returns)

lemma process_command_returns: "\<exists>s' response. process_command e s data = Inr (s', response)"
proof (cases "data = []")
  case True
  then show ?thesis
    by (simp add: process_command_def)
next
  case False
  obtain c rest where c: "py_split (CHR ''|'') data = c # rest"
    using py_split_nonempty[of "CHR ''|''" data] by (cases "py_split (CHR ''|'') data") auto
  show ?thesis
  proof (cases "map_of handlers c")
    case None
    with False c show ?thesis
      by (simp add: process_command_def)
  next
    case (Some h)
    from handlers_return[OF Some, of e s data] obtain s' r where "h e s data = Inr (s', r)"
      by blast
    with Some False c show ?thesis
      by (simp add: process_command_def)
  qed
qed

lemma hd_py_split: "hd (py_split sep s) = takeWhile (\<lambda>c. c \<noteq> sep) s"
  by (induction s) (auto split: list.splits simp: py_split_nonempty)

lemma handlers_None:
  "c \<notin> set [''REGISTER'', ''LOGIN'', ''SEND'', ''INBOX'', ''SENT'', ''READ'', ''DELETE'',
             ''FORWARD'', ''EXPORT'', ''STATUS''] \<Longrightarrow> map_of handlers c = None"
  by (simp add: handlers_def)

lemma handlers_EXPORT: "map_of handlers ''EXPORT'' = Some handle_export"
  by (simp add: handlers_def)

lemma process_command_unknown:
  assumes "data \<noteq> []"
    and "takeWhile (\<lambda>c. c \<noteq> CHR ''|'') data
           \<notin> set [''REGISTER'', ''LOGIN'', ''SEND'', ''INBOX'', ''SENT'', ''READ'', ''DELETE'',
                   ''FORWARD'', ''EXPORT'', ''STATUS'']"
  shows "process_command e s data =
     Inr (s, ''ERROR|Unknown command '' @ [CHR 0x27]
               @ takeWhile (\<lambda>c. c \<noteq> CHR ''|'') data @ [CHR 0x27])"
proof -
  obtain c rest where c: "py_split (CHR ''|'') data = c # rest"
    using py_split_nonempty[of "CHR ''|''" data] by (cases "py_split (CHR ''|'') data") auto
  then have "c = takeWhile (\<lambda>c. c \<noteq> CHR ''|'') data"
    using hd_py_split[of "CHR ''|''" data] by simp
  with assms c handlers_None[of c] show ?thesis
    by (simp add: process_command_def)
qed

lemma process_command_bad_id:
  assumes "py_split (CHR ''|'') data = [verb, u, t]"
    and "verb \<in> set [''READ'', ''DELETE'', ''EXPORT'']"
    and "py_int t = Inl err"
  shows "process_command e s data = Inr (s, ''ERROR|'' @ str_exn err)"
proof -
  have ne: "data \<noteq> []"
    using assms(1) by auto
  from assms(2) consider "verb = ''READ''" | "verb = ''DELETE''" | "verb = ''EXPORT''"
    by auto
  then show ?thesis
  proof cases
    case 1
    with process_command_dispatch[OF ne assms(1)[unfolded 1] handlers_READ] assms(1,3)
    show ?thesis
      by (simp add: handle_read_def handle_read_try_def except_Exception_def)
  next
    case 2
    with process_command_dispatch[OF ne assms(1)[unfolded 2] handlers_DELETE] assms(1,3)
    show ?thesis
      by (simp add: handle_delete_def handle_delete_try_def except_Exception_def)
  next
    case 3
    with process_command_dispatch[OF ne assms(1)[unfolded 3] handlers_EXPORT] assms(1,3)
    show ?thesis
      by (simp add: handle_export_def handle_export_try_def except_Exception_def)
  qed
qed

lemma process_command_bad_forward_id:
  assumes "py_split (CHR ''|'') data = [''FORWARD'', u, t, r]" and "py_int t = Inl err"
  shows "process_command e s data = Inr (s, ''ERROR|'' @ str_exn err)"
proof -
  have ne: "data \<noteq> []"
    using assms(1) by auto
  from process_command_dispatch[OF ne assms(1) handlers_FORWARD] assms
  show ?thesis
    by (simp add: handle_forward_def handle_forward_try_def except_Exception_def)
qed

lemma py_int_x: "py_int ''x'' = Inl (ValueError (''invalid literal for int() with base 10: '' @ [CHR 0x27] @ ''x'' @ [CHR 0x27]))"
  by (simp add: py_int_def int_isspace_def is_digit_def py_repr_def repr_char_def Let_def)

section \<open>Which handlers save\<close>

text \<open>
  Every handler but \<open>handle_forward\<close> that changes the store writes the snapshot of the
  new store, where the file can be written.
\<close>

lemma changed_store_is_saved:
  assumes "h = handle_register \<or> h = handle_login \<or> h = handle_send \<or> h = handle_inbox
         \<or> h = handle_sent \<or> h = handle_read \<or> h = handle_delete
         \<or> h = handle_export \<or> h = handle_status"
    and "h e s d = Inr (s', r)" and "disk_writable e" and "snapshot s' \<noteq> snapshot s"
  shows "server_db_json s' = Some (snapshot s')"
  using assms
  by (elim disjE)
     (auto simp: handle_register_def handle_register_try_def handle_login_def
        handle_login_try_def handle_send_def handle_send_try_def handle_inbox_def
        handle_inbox_try_def handle_sent_def handle_sent_try_def handle_read_def
        handle_read_try_def handle_delete_def handle_delete_try_def handle_export_def
        handle_export_try_def handle_status_def handle_status_try_def except_Exception_def
        save_server_data_def snapshot_def Let_def
      split: list.splits if_splits option.splits sum.splits)

section \<open>Lemmas about the client\<close>




lemma split_at_first:
  "sep \<in> set s \<Longrightarrow> \<exists>a r. s = a @ sep # r \<and> sep \<notin> set a"
  by (metis split_list_first)

lemma two_pipes_decompose:
  assumes "2 \<le> length (filter (\<lambda>x. x = sep) response)"
  shows "\<exists>a b listing. response = a @ sep # b @ sep # listing \<and> sep \<notin> set a \<and> sep \<notin> set b"
proof -
  have "filter (\<lambda>x. x = sep) response \<noteq> []"
    using assms by auto
  then have "sep \<in> set response"
    by (auto simp: filter_empty_conv)
  then obtain a r where r: "response = a @ sep # r" "sep \<notin> set a"
    using split_at_first by metis
  then have "filter (\<lambda>x. x = sep) a = []"
    by (auto simp: filter_empty_conv)
  with assms r(1) have "1 \<le> length (filter (\<lambda>x. x = sep) r)"
    by simp
  then have "filter (\<lambda>x. x = sep) r \<noteq> []"
    by auto
  then have "sep \<in> set r"
    by (auto simp: filter_empty_conv)
  then obtain b listing where "r = b @ sep # listing" "sep \<notin> set b"
    using split_at_first by metis
  with r show ?thesis
    by blast
qed

lemma py_replace_removes: "new \<noteq> old \<Longrightarrow> old \<notin> set (py_replace old new s)"
  by (auto simp: py_replace_def)

lemma py_replace_keeps_out: "c \<notin> set s \<Longrightarrow> c \<noteq> new \<Longrightarrow> c \<notin> set (py_replace old new s)"
  by (auto simp: py_replace_def)

lemma compose_email_subject_map:
  "compose_email_subject typed =
     map (\<lambda>c. if c = CHR ''|'' \<or> c = CHR ''~'' then CHR ''-''
              else if c = CHR '';'' then CHR '','' else c) (py_strip typed)"
  by (simp add: compose_email_subject_def py_replace_def)

lemma compose_email_subject_clean:
  "CHR ''|'' \<notin> set (compose_email_subject typed)
   \<and> CHR ''~'' \<notin> set (compose_email_subject typed)
   \<and> CHR '';'' \<notin> set (compose_email_subject typed)"
  by (auto simp: compose_email_subject_map)

lemma resume_draft_subject_clean:
  "CHR ''|'' \<notin> set (resume_draft_subject typed draft)
   \<and> CHR ''~'' \<notin> set (resume_draft_subject typed draft)"
  by (auto simp: resume_draft_subject_def py_replace_def Let_def)

lemma in_dropWhile: "c \<in> set s \<Longrightarrow> \<not> P c \<Longrightarrow> c \<in> set (dropWhile P s)"
  by (induction s) auto

lemma py_strip_nonempty: "c \<in> set s \<Longrightarrow> \<not> py_isspace c \<Longrightarrow> py_strip s \<noteq> []"
proof -
  assume a: "c \<in> set s" "\<not> py_isspace c"
  then have "c \<in> set (rev (dropWhile py_isspace s))"
    by (simp add: in_dropWhile)
  then have "c \<in> set (dropWhile py_isspace (rev (dropWhile py_isspace s)))"
    using a(2) by (rule in_dropWhile)
  then have "dropWhile py_isspace (rev (dropWhile py_isspace s)) \<noteq> []"
    by (metis empty_iff empty_set)
  then show ?thesis
    by (simp add: py_strip_def)
qed

lemma inbox_line_rstrip:
  "py_rstrip_char (CHR '';'') (inbox_line m) =
     str_int (email_id m) @ ''~'' @ email_from m @ ''~'' @ email_subject m @ ''~''
       @ email_timestamp m @ ''~'' @ status_text m"
  by (simp add: py_rstrip_char_def inbox_line_def status_text_def)

lemma split_five:
  assumes "sep \<notin> set a" "sep \<notin> set b" "sep \<notin> set c" "sep \<notin> set d" "sep \<notin> set e"
  shows "py_split sep (a @ [sep] @ b @ [sep] @ c @ [sep] @ d @ [sep] @ e) = [a, b, c, d, e]"
  using assms by (simp add: py_split_append py_split_no_sep)

section \<open>Lemmas about the wire codec\<close>

lemma length_le_bytes: "length (le_bytes k v) = k"
  by (induction k arbitrary: v) auto

lemma le_bytes_small: "list_all (\<lambda>b. b < 256) (le_bytes k v)"
  by (induction k arbitrary: v) auto

lemma le_value_le_bytes: "v < 256 ^ k \<Longrightarrow> le_value (le_bytes k v) = v"
proof (induction k arbitrary: v)
  case 0
  then show ?case by simp
next
  case (Suc k)
  then have "v div 256 < 256 ^ k"
    by (simp add: less_mult_imp_div_less mult.commute)
  with Suc.IH have "le_value (le_bytes k (v div 256)) = v div 256"
    by simp
  then show ?case
    by simp
qed

lemma le_bytes_le_value:
  "list_all (\<lambda>b. b < 256) bs \<Longrightarrow> le_bytes (length bs) (le_value bs) = bs"
  by (induction bs) auto

lemma le_value_bound: "list_all (\<lambda>b. b < 256) bs \<Longrightarrow> le_value bs < 256 ^ length bs"
proof (induction bs)
  case Nil
  show ?case by simp
next
  case (Cons b bs)
  then have "b < 256" and "le_value bs < 256 ^ length bs"
    by simp_all
  then have "Suc (le_value bs) \<le> 256 ^ length bs"
    by simp
  then have "256 * Suc (le_value bs) \<le> 256 * 256 ^ length bs"
    by (rule mult_le_mono2)
  with \<open>b < 256\<close> show ?case
    by simp
qed

lemma of_char_char_of_small:
  "list_all (\<lambda>b. b < 256) bs \<Longrightarrow> map of_char (map char_of bs) = (bs :: nat list)"
  by (induction bs) auto

lemma unpack_pack_L: "v < 2 ^ 32 \<Longrightarrow> unpack_L (pack_L v) = Inr v"
proof -
  assume "v < 2 ^ 32"
  then have small: "v < (256::nat) ^ calcsize_L"
    by (simp add: calcsize_L_def)
  have len: "length (pack_L v) = calcsize_L"
    by (simp add: pack_L_def length_le_bytes)
  have "map of_char (pack_L v) = le_bytes calcsize_L v"
    unfolding pack_L_def by (rule of_char_char_of_small) (rule le_bytes_small)
  then have "le_value (map of_char (pack_L v)) = v"
    using small by (simp only: le_value_le_bytes)
  with len show ?thesis
    by (simp only: unpack_L_def simp_thms if_True)
qed

lemma ntohl_htonl:
  assumes "htonl n = Inr v"
  shows "v < 2 ^ 32 \<and> ntohl v = Inr n"
proof -
  have n: "n < 2 ^ 32" and v: "v = le_value (rev (le_bytes 4 n))"
    using assms by (auto simp: htonl_def split: if_splits)
  let ?bs = "rev (le_bytes 4 n)"
  have small: "list_all (\<lambda>b. b < 256) ?bs"
    using le_bytes_small[of 4 n] by (simp add: list_all_iff)
  have len: "length ?bs = 4"
    by (simp add: length_le_bytes)
  have "v < 256 ^ length ?bs"
    unfolding v using small by (rule le_value_bound)
  then have v32: "v < 2 ^ 32"
    by (simp add: length_le_bytes)
  have "le_bytes (length ?bs) v = ?bs"
    unfolding v using small by (rule le_bytes_le_value)
  then have "le_bytes 4 v = ?bs"
    by (simp only: len)
  then have "rev (le_bytes 4 v) = le_bytes 4 n"
    by simp
  moreover have "le_value (le_bytes 4 n) = n"
    using n by (intro le_value_le_bytes) simp
  ultimately show ?thesis
    using v32 by (simp add: ntohl_def)
qed

lemma recv_length: "recv n ch = (b, ch') \<Longrightarrow> length b \<le> n"
  by (induction n ch rule: recv.induct) (auto split: if_splits)

lemma recv_nothing: "concat ch = [] \<Longrightarrow> recv n ch = ([], [])"
  by (induction n ch rule: recv.induct) auto

lemma recv_empty: "0 < n \<Longrightarrow> recv n ch = ([], ch') \<Longrightarrow> ch' = []"
  by (induction n ch rule: recv.induct) (auto split: if_splits)

lemma recv_whole: "seg \<noteq> [] \<Longrightarrow> length seg \<le> n \<Longrightarrow> recv n (seg # rest) = (seg, rest)"
  by simp

lemma stuck_step:
  assumes "stuck sz ch buf" and "recv (sz - length buf) ch = (b, ch')"
  shows "stuck sz ch' b"
proof (cases "buf = []")
  case True
  with assms(1) have "concat ch = []" and "0 < sz"
    by (auto simp: stuck_def)
  with assms(2) recv_nothing[of ch "sz - length buf"] show ?thesis
    by (simp add: stuck_def)
next
  case False
  with assms(1) have pos: "0 < sz - length buf" and lt: "sz - length buf < sz"
    by (auto simp: stuck_def)
  have len: "length b < sz"
    using recv_length[OF assms(2)] lt by simp
  show ?thesis
  proof (cases "b = []")
    case True
    with assms(2) have "recv (sz - length buf) ch = ([], ch')"
      by simp
    from recv_empty[OF pos this] len show ?thesis
      by (simp add: stuck_def)
  next
    case False
    with len show ?thesis
      by (simp add: stuck_def)
  qed
qed

lemma stuck_body:
  fixes loop :: "nat \<Rightarrow> channel \<Rightarrow> bytes \<Rightarrow> (bytes \<times> channel) option"
  assumes IH: "\<And>sz ch buf r. loop sz ch buf = Some r \<Longrightarrow> \<not> stuck sz ch buf"
    and body: "(if length buf < sz
                then (case recv (sz - length buf) ch of (b, ch') \<Rightarrow> loop sz ch' b)
                else Some (buf, ch)) = Some r"
  shows "\<not> stuck sz ch buf"
proof
  assume s: "stuck sz ch buf"
  then have lt: "length buf < sz"
    by (simp add: stuck_def)
  obtain b ch' where rc: "recv (sz - length buf) ch = (b, ch')"
    by (cases "recv (sz - length buf) ch") auto
  with body lt have "loop sz ch' b = Some r"
    by simp
  then have "\<not> stuck sz ch' b"
    by (rule IH)
  with stuck_step[OF s rc] show False
    by simp
qed

lemma recv_loop_not_stuck:
  assumes "recv_loop sz ch buf = Some r"
  shows "\<not> stuck sz ch buf"
  by (rule recv_loop.raw_induct[where P = "\<lambda>sz ch buf r. \<not> stuck sz ch buf", OF stuck_body assms])

lemma stuck_never_returns: "stuck sz ch buf \<Longrightarrow> recv_loop sz ch buf = None"
  using recv_loop_not_stuck[of sz ch buf] by (cases "recv_loop sz ch buf") auto

lemma partial_first_read_stuck:
  assumes "first \<noteq> []" and "length first < sz"
  shows "recv_loop sz (first # later) [] = None"
proof -
  have "stuck sz later first"
    using assms by (simp add: stuck_def)
  then have "recv_loop sz later first = None"
    by (rule stuck_never_returns)
  then show ?thesis
    using assms by (subst recv_loop.simps) simp
qed

lemma whole_read_returns:
  assumes "body \<noteq> []"
  shows "recv_loop (length body) (body # later) [] = Some (body, later)"
proof -
  have "recv_loop (length body) later body = Some (body, later)"
    by (subst recv_loop.simps) simp
  then show ?thesis
    using assms by (subst recv_loop.simps) simp
qed

lemma send_frame:
  assumes "send dumps ch args = Inr ch'"
  shows "\<exists>v. htonl (length (dumps args)) = Inr v \<and> ch' = ch @ [pack_L v, dumps args]"
  using assms by (auto simp: send_def Let_def split: sum.splits)

lemma pack_L_read: "recv calcsize_L (pack_L v # later) = (pack_L v, later)"
proof -
  have len: "length (pack_L v) = calcsize_L"
    by (simp add: pack_L_def length_le_bytes)
  then have "pack_L v \<noteq> []"
    by (auto simp: calcsize_L_def)
  from recv_whole[OF this, of calcsize_L later] len show ?thesis
    by simp
qed

lemma receive_header:
  assumes "htonl n = Inr v" and "0 < n"
  shows "receive loads (pack_L v # later) =
     (case recv_loop n later [] of
        None \<Rightarrow> None
      | Some (buf, ch2) \<Rightarrow>
          (case loads buf of
             Inl err \<Rightarrow> Some (Inl err)
           | Inr args \<Rightarrow>
               (case args of
                  [] \<Rightarrow> Some (Inl (IndexError ''tuple index out of range''))
                | x # rest \<Rightarrow> Some (Inr (x, ch2)))))"
proof -
  from ntohl_htonl[OF assms(1)] have v: "v < 2 ^ 32" and n: "ntohl v = Inr n"
    by simp_all
  have u: "unpack_L (pack_L v) = Inr v"
    using v by (rule unpack_pack_L)
  show ?thesis
    using assms(2) by (simp add: receive_def pack_L_read u n del: recv.simps)
qed

lemma receive_whole_frame:
  assumes "send dumps [] args = Inr frame" and "dumps args \<noteq> []"
    and "loads (dumps args) = Inr (x # xs)"
  shows "receive loads (frame @ later) = Some (Inr (x, later))"
proof -
  obtain v where v: "htonl (length (dumps args)) = Inr v" and f: "frame = [pack_L v, dumps args]"
    using send_frame[OF assms(1)] by auto
  have "0 < length (dumps args)"
    using assms(2) by simp
  from receive_header[OF v this, of loads "dumps args # later"]
  show ?thesis
    by (simp add: f whole_read_returns[OF assms(2)] assms(3))
qed

lemma le_bytes_4:
  "le_bytes 4 v = [v mod 256, v div 256 mod 256, v div 256 div 256 mod 256,
                   v div 256 div 256 div 256 mod 256]"
proof -
  have "le_bytes (Suc (Suc (Suc (Suc 0)))) v
      = [v mod 256, v div 256 mod 256, v div 256 div 256 mod 256,
         v div 256 div 256 div 256 mod 256]"
    by simp
  moreover have "(4::nat) = Suc (Suc (Suc (Suc 0)))"
    by simp
  ultimately show ?thesis
    by (simp only:)
qed

lemma htonl_4: "htonl 4 = Inr 67108864"
  by (simp add: htonl_def le_bytes_4)

lemma eight: "(8::nat) = Suc (Suc (Suc (Suc (Suc (Suc (Suc (Suc 0)))))))"
  by simp

lemma pack_L_4:
  "pack_L 67108864 = [CHR 0x00, CHR 0x00, CHR 0x00, CHR 0x04, CHR 0x00, CHR 0x00, CHR 0x00, CHR 0x00]"
proof -
  have "le_bytes (Suc (Suc (Suc (Suc (Suc (Suc (Suc (Suc 0)))))))) 67108864
      = [0, 0, 0, 4, 0, 0, 0, 0]"
    by simp
  then have "le_bytes calcsize_L 67108864 = [0, 0, 0, 4, 0, 0, 0, 0]"
    unfolding calcsize_L_def by (simp only: eight)
  moreover have "map char_of [0, 0, 0, 4, 0, 0, 0, 0 :: nat]
      = [CHR 0x00, CHR 0x00, CHR 0x00, CHR 0x04, CHR 0x00, CHR 0x00, CHR 0x00, CHR 0x00]"
    by code_simp
  ultimately show ?thesis
    by (simp only: pack_L_def)
qed

section \<open>Evaluating the small mailbox\<close>

lemmas eval_defs = load_server_data_def process_command_def handlers_def
  handle_register_def handle_register_try_def handle_login_def handle_login_try_def
  handle_send_def handle_send_try_def handle_read_def handle_read_try_def
  handle_delete_def handle_delete_try_def handle_forward_def handle_forward_try_def
  except_Exception_def save_server_data_def snapshot_def py_int_def int_isspace_def is_digit_def
  digits_value_def eval_nat_numeral Let_def env0_def

lemma run_append: "run (a @ b) = foldl step (run a) b"
  by (simp add: run_def)

lemma run_mailbox_events: "run mailbox_events = mailbox"
  by (simp add: run_def mailbox_events_def mailbox_def mail1_def eval_defs)

lemma str_int_1: "str_int 1 = ''1''"
  by code_simp

lemma str_int_2: "str_int 2 = ''2''"
  by code_simp

section \<open>Message ids\<close>

text \<open>
  While one server process runs, ids increase: a message that appears with a new id after
  some event has an id greater than the id of every message that was in the store at any
  earlier time, whether or not that message has been deleted since.
\<close>

lemma ids_increase_in_one_run:
  assumes "old \<in> set (emails (run pre))"
    and "new \<in> set (emails (run (pre @ mid @ [ev])))"
    and "email_id new \<notin> set (map email_id (emails (run (pre @ mid))))"
  shows "email_id old < email_id new
       \<and> distinct (map email_id (emails (run (pre @ mid @ [ev]))))"
proof -
  let ?s = "run (pre @ mid)"
  have step: "run (pre @ mid @ [ev]) = step ?s ev"
    by (simp add: run_def)
  have "email_id new \<in> set (map email_id (emails (step ?s ev)))"
    using assms(2) step by simp
  with store_change_ids[OF step_change, of "email_id new" ?s ev] assms(3)
  have new: "email_id new = email_id_counter ?s + 1"
    by blast
  have "email_id old \<le> email_id_counter (run pre)"
    using run_ok[of pre] assms(1) unfolding store_ok_ids by simp
  also have "\<dots> \<le> email_id_counter ?s"
    using foldl_step_counter[of "run pre" mid] by (simp add: run_def)
  finally have "email_id old < email_id new"
    using new by simp
  moreover have "distinct (map email_id (emails (run (pre @ mid @ [ev]))))"
    using run_ok[of "pre @ mid @ [ev]"] by (simp add: store_ok_ids)
  ultimately show ?thesis
    by simp
qed

lemma ids_increase_in_one_run_example:
  "mail1 \<in> set (emails (run mailbox_events))
   \<and> mail2 \<in> set (emails (run (mailbox_events @ [Receive env0 ''DELETE|bob|1'']
                                   @ [Receive env0 ''SEND|bob|alice|Re|Yo''])))
   \<and> email_id mail2 \<notin> set (map email_id
         (emails (run (mailbox_events @ [Receive env0 ''DELETE|bob|1'']))))
   \<and> email_id mail1 < email_id mail2"
proof -
  have a: "mail1 \<in> set (emails (run mailbox_events))"
    by (simp add: run_mailbox_events mailbox_def)
  have b: "mail2 \<in> set (emails (run (mailbox_events @ [Receive env0 ''DELETE|bob|1'']
                                   @ [Receive env0 ''SEND|bob|alice|Re|Yo''])))"
    by (simp add: run_append run_mailbox_events mailbox_def mail1_def mail2_def eval_defs)
  have c: "email_id mail2 \<notin> set (map email_id
         (emails (run (mailbox_events @ [Receive env0 ''DELETE|bob|1'']))))"
    by (simp add: run_append run_mailbox_events mailbox_def mail1_def mail2_def eval_defs)
  from ids_increase_in_one_run[OF a b c] a b c show ?thesis
    by simp
qed

text \<open>
  C4. Message ids are never reused. They are, across a restart: \<open>FORWARD\<close> gives the copy
  the next id and does not save, so a server restarted from \<open>server_db.json\<close> loads the
  counter of the last save and gives the same id to the next message. In the small mailbox
  bob's forwarded copy gets id 2; after the restart alice's next message gets id 2 as well.
\<close>

theorem restart_after_forward_reuses_id:
  "(let s1 = run (mailbox_events @ [Receive env0 ''FORWARD|bob|1|alice'']);
        s2 = load_server_data (server_db_json s1);
        s3 = step s2 (Receive env0 ''SEND|alice|bob|Again|Hello'')
    in emails s1 =
         [mail1,
          \<lparr>email_id = 2, email_from = ''bob'', email_to = ''alice'',
            email_subject = ''FWD: Hi'',
            email_body = ''[Forwarded from alice]'' @ [CHR 0x0A, CHR 0x0A] @ ''Hello'',
            email_timestamp = ''2025-01-01 10:00:00'', email_read = False\<rparr>]
       \<and> email_id_counter s1 = 2
       \<and> emails s2 = [mail1] \<and> email_id_counter s2 = 1
       \<and> emails s3 =
         [mail1,
          \<lparr>email_id = 2, email_from = ''alice'', email_to = ''bob'',
            email_subject = ''Again'', email_body = ''Hello'',
            email_timestamp = ''2025-01-01 10:00:00'', email_read = False\<rparr>]
       \<and> email_id_counter s3 = 2)"
  by (simp add: run_append run_mailbox_events mailbox_def mail1_def eval_defs)

section \<open>Reading a message\<close>

text \<open>
  C3. For a message \<open>m\<close> of the store and a user name \<open>u\<close> (a field of the command, so
  without \<open>|\<close>), \<open>READ\<close> of \<open>m\<close>'s id by \<open>u\<close> sets the read flag of \<open>m\<close>, and of no other
  message, exactly when \<open>u\<close> is the recipient. The recipient is answered
  \<open>OK|id|from|to|subject|body|timestamp\<close> with the fields of \<open>m\<close>, and the flag is true
  afterwards (also when it already was); the sender, where not the recipient, gets the
  same answer and the store is unchanged; anybody else gets \<open>ERROR|Access denied\<close> and the
  store is unchanged.
\<close>

theorem read_marks_iff_recipient:
  assumes "m \<in> set (emails (run evs))" and "CHR ''|'' \<notin> set u"
  shows "process_command e (run evs) (read_command u (email_id m)) =
     (if u = email_to m
      then Inr (save_server_data e
                 ((run evs)\<lparr>emails :=
                    map (\<lambda>x. if email_id x = email_id m then x\<lparr>email_read := True\<rparr> else x)
                      (emails (run evs))\<rparr>),
                ''OK|'' @ str_int (email_id m) @ ''|'' @ email_from m @ ''|'' @ email_to m
                  @ ''|'' @ email_subject m @ ''|'' @ email_body m @ ''|'' @ email_timestamp m)
      else if u = email_from m
      then Inr (run evs,
                ''OK|'' @ str_int (email_id m) @ ''|'' @ email_from m @ ''|'' @ email_to m
                  @ ''|'' @ email_subject m @ ''|'' @ email_body m @ ''|'' @ email_timestamp m)
      else Inr (run evs, ''ERROR|Access denied''))"
proof -
  have d: "distinct (map email_id (emails (run evs)))"
    using run_ok[of evs] by (simp add: store_ok_ids)
  have f: "find (\<lambda>x. email_id x = email_id m) (emails (run evs)) = Some m"
    using d assms(1) by (rule find_by_id)
  show ?thesis
    unfolding process_read_command[OF assms(2)] f mark_read_map[OF d]
    by (auto simp: read_response_def)
qed

theorem read_marks_iff_recipient_witness:
  "mail1 \<in> set (emails (run mailbox_events))
   \<and> CHR ''|'' \<notin> set ''bob'' \<and> CHR ''|'' \<notin> set ''alice'' \<and> CHR ''|'' \<notin> set ''carol''
   \<and> process_command env0 (run mailbox_events) (read_command ''bob'' (email_id mail1))
       = Inr (save_server_data env0 (mailbox\<lparr>emails := [mail1\<lparr>email_read := True\<rparr>]\<rparr>),
              ''OK|1|alice|bob|Hi|Hello|2025-01-01 10:00:00'')
   \<and> process_command env0 (run mailbox_events) (read_command ''alice'' (email_id mail1))
       = Inr (mailbox, ''OK|1|alice|bob|Hi|Hello|2025-01-01 10:00:00'')
   \<and> process_command env0 (run mailbox_events) (read_command ''carol'' (email_id mail1))
       = Inr (mailbox, ''ERROR|Access denied'')"
proof -
  have a: "mail1 \<in> set (emails (run mailbox_events))"
    by (simp add: run_mailbox_events mailbox_def)
  have c: "CHR ''|'' \<notin> set ''bob''" "CHR ''|'' \<notin> set ''alice''" "CHR ''|'' \<notin> set ''carol''"
    by simp_all
  from read_marks_iff_recipient[OF a c(1), of env0] read_marks_iff_recipient[OF a c(2), of env0]
    read_marks_iff_recipient[OF a c(3), of env0] a c
  show ?thesis
    by (simp add: run_mailbox_events mailbox_def mail1_def str_int_1)
qed

section \<open>Reading after a delete\<close>

text \<open>
  C8. Once \<open>DELETE\<close> of id \<open>i\<close> has succeeded, whatever events follow (sends and forwards
  among them), a \<open>READ\<close> of \<open>i\<close> by any user returns \<open>ERROR|Email not found\<close> and leaves
  the store as it is.
\<close>

theorem deleted_message_not_found:
  assumes "process_command e (run pre) (delete_command u i)
             = Inr (s1, ''OK|Email #'' @ str_int i @ '' deleted'')"
    and "CHR ''|'' \<notin> set v"
  shows "process_command e' (foldl step s1 mid) (read_command v i)
           = Inr (foldl step s1 mid, ''ERROR|Email not found'')"
proof -
  let ?s = "run pre"
  obtain m where f: "find (\<lambda>x. email_id x = i) (emails ?s) = Some m"
    and s1: "s1 = save_server_data e (?s\<lparr>emails := remove1 m (emails ?s)\<rparr>)"
    using handle_delete_ok[of e ?s "delete_command u i" s1 i] assms(1)
    by (auto simp only: process_delete_any)
  have m: "m \<in> set (emails ?s)" "email_id m = i"
    using f by (auto simp: find_Some_iff)
  have ok: "store_ok ?s"
    by (rule run_ok)
  have d: "distinct (map email_id (emails ?s))" and le: "i \<le> email_id_counter ?s"
    using ok m unfolding store_ok_ids by auto
  have gone: "i \<notin> set (map email_id (emails s1))"
    using id_removed[OF d m(1)] m(2) s1 by simp
  have ok1: "store_ok s1"
    using assms(1) ok by (auto intro: store_change_ok process_command_change)
  have le1: "i \<le> email_id_counter s1"
    using le s1 by simp
  have "i \<notin> set (map email_id (emails (foldl step s1 mid)))"
    using ok1 le1 gone by (rule retired_foldl)
  then have "find (\<lambda>x. email_id x = i) (emails (foldl step s1 mid)) = None"
    by (auto simp: find_None_iff)
  then show ?thesis
    by (simp add: process_read_command[OF assms(2)])
qed

theorem deleted_message_not_found_witness:
  "process_command env0 (run mailbox_events) (delete_command ''bob'' 1)
      = Inr (mailbox_deleted, ''OK|Email #'' @ str_int 1 @ '' deleted'')
   \<and> CHR ''|'' \<notin> set ''alice''
   \<and> process_command env0
        (foldl step mailbox_deleted [Receive env0 ''SEND|bob|alice|Re|Yo''])
        (read_command ''alice'' 1)
      = Inr (foldl step mailbox_deleted [Receive env0 ''SEND|bob|alice|Re|Yo''],
             ''ERROR|Email not found'')"
proof -
  have a: "process_command env0 (run mailbox_events) (delete_command ''bob'' 1)
      = Inr (mailbox_deleted, ''OK|Email #'' @ str_int 1 @ '' deleted'')"
    by (simp add: process_delete_command run_mailbox_events mailbox_def mail1_def
        mailbox_deleted_def save_server_data_def snapshot_def env0_def)
  have b: "CHR ''|'' \<notin> set ''alice''"
    by simp
  from deleted_message_not_found[OF a b] a b show ?thesis
    by blast
qed

section \<open>Forwarding a message\<close>

text \<open>
  C7. For a message \<open>m\<close> of the store that \<open>u\<close> may read (its sender or its recipient),
  \<open>FORWARD\<close> of \<open>m\<close>'s id by \<open>u\<close> to a registered recipient \<open>r\<close> appends one new message:
  its sender is \<open>u\<close>, its subject is \<open>m\<close>'s behind \<open>FWD: \<close>, its body is \<open>m\<close>'s behind a
  line naming \<open>m\<close>'s sender; the messages already stored, \<open>m\<close> among them, stay as they
  are. To a recipient that is not registered the answer is \<open>ERROR|Recipient not found\<close>
  and the store is unchanged.
\<close>

theorem forward_creates_copy:
  assumes "m \<in> set (emails (run evs))"
    and "u = email_from m \<or> u = email_to m"
    and "CHR ''|'' \<notin> set u" and "CHR ''|'' \<notin> set r"
  shows "process_command e (run evs) (forward_command u (email_id m) r) =
     (if map_of (users (run evs)) r = None then Inr (run evs, ''ERROR|Recipient not found'')
      else Inr ((run evs)\<lparr>email_id_counter := email_id_counter (run evs) + 1,
                  emails := emails (run evs) @
                    [\<lparr>email_id = email_id_counter (run evs) + 1, email_from = u, email_to = r,
                      email_subject = ''FWD: '' @ email_subject m,
                      email_body = ''[Forwarded from '' @ email_from m @ '']''
                        @ [CHR 0x0A, CHR 0x0A] @ email_body m,
                      email_timestamp = now e, email_read = False\<rparr>]\<rparr>,
                ''OK|Email forwarded to '' @ r))"
proof -
  have d: "distinct (map email_id (emails (run evs)))"
    using run_ok[of evs] by (simp add: store_ok_ids)
  have f: "find (\<lambda>x. email_id x = email_id m) (emails (run evs)) = Some m"
    using d assms(1) by (rule find_by_id)
  have sp: "py_split (CHR ''|'') (forward_command u (email_id m) r)
              = [''FORWARD'', u, str_int (email_id m), r]"
    using assms(3,4) by (rule split_forward_command)
  have "process_command e (run evs) (forward_command u (email_id m) r)
          = handle_forward e (run evs) (forward_command u (email_id m) r)"
    by (rule process_command_dispatch[OF forward_command_nonempty sp handlers_FORWARD])
  then show ?thesis
    unfolding handle_forward_parsed[OF sp py_int_str_int] f using assms(2)
    by auto
qed

theorem forward_creates_copy_witness:
  "mail1 \<in> set (emails (run mailbox_events))
   \<and> (''bob'' = email_from mail1 \<or> ''bob'' = email_to mail1)
   \<and> CHR ''|'' \<notin> set ''bob'' \<and> CHR ''|'' \<notin> set ''alice'' \<and> CHR ''|'' \<notin> set ''carol''
   \<and> process_command env0 (run mailbox_events) (forward_command ''bob'' (email_id mail1) ''alice'')
       = Inr (mailbox\<lparr>email_id_counter := 2,
                emails := [mail1,
                   \<lparr>email_id = 2, email_from = ''bob'', email_to = ''alice'',
                     email_subject = ''FWD: Hi'',
                     email_body = ''[Forwarded from alice]'' @ [CHR 0x0A, CHR 0x0A] @ ''Hello'',
                     email_timestamp = ''2025-01-01 10:00:00'', email_read = False\<rparr>]\<rparr>,
              ''OK|Email forwarded to alice'')
   \<and> process_command env0 (run mailbox_events) (forward_command ''bob'' (email_id mail1) ''carol'')
       = Inr (mailbox, ''ERROR|Recipient not found'')"
proof -
  have a: "mail1 \<in> set (emails (run mailbox_events))"
    by (simp add: run_mailbox_events mailbox_def)
  have b: "''bob'' = email_from mail1 \<or> ''bob'' = email_to mail1"
    by (simp add: mail1_def)
  have c: "CHR ''|'' \<notin> set ''bob''" "CHR ''|'' \<notin> set ''alice''" "CHR ''|'' \<notin> set ''carol''"
    by simp_all
  from forward_creates_copy[OF a b c(1) c(2), of env0]
    forward_creates_copy[OF a b c(1) c(3), of env0] a b c
  show ?thesis
    by (simp add: run_mailbox_events mailbox_def mail1_def env0_def)
qed

section \<open>A password with a pipe\<close>

text \<open>
  C10. \<open>REGISTER\<close> splits its command at most twice, so for a user name \<open>u\<close> that is not
  yet registered a password \<open>p\<close> with a \<open>|\<close> in it is stored as it is. \<open>LOGIN\<close> splits at
  every \<open>|\<close> and wants exactly three fields: in every later state the account is still
  there with that password, \<open>LOGIN\<close> with it answers \<open>ERROR|Invalid LOGIN format\<close>, and no
  \<open>LOGIN\<close> command at all is answered \<open>OK|Welcome u!\<close>.
\<close>

theorem piped_password_locks_account:
  assumes "CHR ''|'' \<notin> set u" and "CHR ''|'' \<in> set p" and "map_of (users s) u = None"
  shows "(let s1 = save_server_data e (s\<lparr>users := AList.update u p (users s)\<rparr>);
              s2 = foldl step s1 later
          in process_command e s (register_command u p)
               = Inr (s1, ''OK|User '' @ u @ '' registered successfully'')
             \<and> map_of (users s2) u = Some p
             \<and> process_command e' s2 (login_command u p)
                 = Inr (s2, ''ERROR|Invalid LOGIN format'')
             \<and> handle_login e' s2 d \<noteq> Inr (s2, ''OK|Welcome '' @ u @ ''!''))"
proof -
  define s1 where "s1 = save_server_data e (s\<lparr>users := AList.update u p (users s)\<rparr>)"
  define s2 where "s2 = foldl step s1 later"
  have reg: "process_command e s (register_command u p)
               = Inr (s1, ''OK|User '' @ u @ '' registered successfully'')"
    using assms(3) split_register_command[OF assms(1), of p]
    by (simp add: process_register_any handle_register_def handle_register_try_def
        except_Exception_def s1_def)
  have "map_of (users s1) u = Some p"
    by (simp add: s1_def update_conv')
  then have u2: "map_of (users s2) u = Some p"
    unfolding s2_def by (rule foldl_step_users)
  have "process_command e' s2 (login_command u p) = Inr (s2, ''ERROR|Invalid LOGIN format'')"
    using assms(1,2) by (rule login_piped_invalid)
  moreover have "handle_login e' s2 d \<noteq> Inr (s2, ''OK|Welcome '' @ u @ ''!'')"
    using u2 assms(2) by (rule login_never_welcomes)
  ultimately show ?thesis
    using reg u2 unfolding s1_def s2_def by (simp add: Let_def)
qed

theorem piped_password_locks_account_witness:
  "CHR ''|'' \<notin> set ''carol'' \<and> CHR ''|'' \<in> set ''p|w'' \<and> map_of (users mailbox) ''carol'' = None
   \<and> process_command env0 mailbox (register_command ''carol'' ''p|w'')
       = Inr (save_server_data env0
                (mailbox\<lparr>users := [(''alice'', ''pw1''), (''bob'', ''pw2''), (''carol'', ''p|w'')]\<rparr>),
              ''OK|User carol registered successfully'')
   \<and> process_command env0
        (save_server_data env0
           (mailbox\<lparr>users := [(''alice'', ''pw1''), (''bob'', ''pw2''), (''carol'', ''p|w'')]\<rparr>))
        (login_command ''carol'' ''p|w'')
       = Inr (save_server_data env0
                (mailbox\<lparr>users := [(''alice'', ''pw1''), (''bob'', ''pw2''), (''carol'', ''p|w'')]\<rparr>),
              ''ERROR|Invalid LOGIN format'')"
proof -
  have a: "CHR ''|'' \<notin> set ''carol''" and b: "CHR ''|'' \<in> set ''p|w''"
    and c: "map_of (users mailbox) ''carol'' = None"
    by (simp_all add: mailbox_def)
  from piped_password_locks_account[OF a b c, of env0 "[]" env0] a b c
  show ?thesis
    by (simp add: Let_def mailbox_def)
qed

section \<open>The dispatcher never raises\<close>

text \<open>
  C6. \<open>process_command\<close> returns a response for every command string and lets no
  exception through: the empty string gives \<open>ERROR|Empty command\<close>; a first field that is
  no verb gives \<open>ERROR|Unknown command '<verb>'\<close>; and where a handler raises (the message
  id of \<open>READ\<close>, \<open>DELETE\<close>, \<open>EXPORT\<close> or \<open>FORWARD\<close> is no integer) the response is
  \<open>ERROR|\<close> and the exception's message, with the store unchanged.
\<close>

theorem process_command_never_raises:
  "(\<exists>s' response. process_command e s data = Inr (s', response))
   \<and> (data = [] \<longrightarrow> process_command e s data = Inr (s, ''ERROR|Empty command''))
   \<and> (data \<noteq> [] \<and> takeWhile (\<lambda>c. c \<noteq> CHR ''|'') data
           \<notin> set [''REGISTER'', ''LOGIN'', ''SEND'', ''INBOX'', ''SENT'', ''READ'', ''DELETE'',
                   ''FORWARD'', ''EXPORT'', ''STATUS'']
        \<longrightarrow> process_command e s data =
             Inr (s, ''ERROR|Unknown command '' @ [CHR 0x27]
                      @ takeWhile (\<lambda>c. c \<noteq> CHR ''|'') data @ [CHR 0x27]))
   \<and> (py_split (CHR ''|'') data = [verb, u, t]
        \<and> verb \<in> set [''READ'', ''DELETE'', ''EXPORT''] \<and> py_int t = Inl err
        \<longrightarrow> process_command e s data = Inr (s, ''ERROR|'' @ str_exn err))
   \<and> (py_split (CHR ''|'') data = [''FORWARD'', u, t, r] \<and> py_int t = Inl err
        \<longrightarrow> process_command e s data = Inr (s, ''ERROR|'' @ str_exn err))"
  using process_command_returns[of e s data] process_command_unknown[of data e s]
    process_command_bad_id[of data verb u t err e s]
    process_command_bad_forward_id[of data u t r err e s]
  by (simp add: process_command_def)

theorem process_command_never_raises_witness:
  "process_command env0 mailbox [] = Inr (mailbox, ''ERROR|Empty command'')
   \<and> process_command env0 mailbox ''PING|x''
       = Inr (mailbox, ''ERROR|Unknown command '' @ [CHR 0x27] @ ''PING'' @ [CHR 0x27])
   \<and> py_split (CHR ''|'') ''READ|bob|x'' = [''READ'', ''bob'', ''x'']
   \<and> py_int ''x'' = Inl (ValueError (''invalid literal for int() with base 10: ''
                                       @ [CHR 0x27] @ ''x'' @ [CHR 0x27]))
   \<and> process_command env0 mailbox ''READ|bob|x''
       = Inr (mailbox, ''ERROR|invalid literal for int() with base 10: ''
                         @ [CHR 0x27] @ ''x'' @ [CHR 0x27])
   \<and> py_split (CHR ''|'') ''FORWARD|bob|x|alice'' = [''FORWARD'', ''bob'', ''x'', ''alice'']
   \<and> process_command env0 mailbox ''FORWARD|bob|x|alice''
       = Inr (mailbox, ''ERROR|invalid literal for int() with base 10: ''
                         @ [CHR 0x27] @ ''x'' @ [CHR 0x27])"
proof -
  have a: "py_split (CHR ''|'') ''READ|bob|x'' = [''READ'', ''bob'', ''x'']"
    and b: "py_split (CHR ''|'') ''FORWARD|bob|x|alice'' = [''FORWARD'', ''bob'', ''x'', ''alice'']"
    by simp_all
  note c = py_int_x
  from process_command_never_raises[of env0 mailbox "[]"]
    process_command_never_raises[of env0 mailbox "''PING|x''"]
    process_command_never_raises[of env0 mailbox "''READ|bob|x''" "''READ''" "''bob''" "''x''" _ "''alice''"]
    process_command_never_raises[of env0 mailbox "''FORWARD|bob|x|alice''" _ "''bob''" "''x''" _ "''alice''"]
    a b c
  show ?thesis
    by simp
qed

section \<open>Forwarding does not save\<close>

text \<open>
  C1. Every mutating operation writes the snapshot of the store before it answers \<open>OK\<close>.
  \<open>handle_forward\<close> does not: in the small mailbox, with a writable file, \<open>FORWARD\<close> of
  message 1 by bob to alice answers \<open>OK|Email forwarded to alice\<close>, the store holds two
  messages and the counter is 2, and the file is the one written before, which is not the
  snapshot of the store.
\<close>

theorem forward_answers_ok_without_saving:
  "\<exists>s'. process_command env0 (run mailbox_events) ''FORWARD|bob|1|alice''
           = Inr (s', ''OK|Email forwarded to alice'')
        \<and> length (emails s') = 2 \<and> email_id_counter s' = 2
        \<and> server_db_json s' = server_db_json (run mailbox_events)
        \<and> server_db_json s' \<noteq> Some (snapshot s')
        \<and> disk_writable env0"
  by (simp add: run_mailbox_events mailbox_def mail1_def eval_defs)

section \<open>Synchronising the cache\<close>




section \<open>Subjects\<close>

text \<open>
  C9, as stated: \<open>|\<close> is replaced by \<open>-\<close> and \<open>~\<close> by \<open>,\<close>, and no composed subject holds a
  \<open>;\<close>. \<open>compose_email\<close> replaces \<open>~\<close> by \<open>-\<close>, not by \<open>,\<close>; and \<open>resume_draft\<close> leaves a
  \<open>;\<close> in the subject.
\<close>

theorem tilde_becomes_dash:
  "compose_email_subject ''a~b'' = ''a-b''
   \<and> compose_email_subject ''a~b'' \<noteq> ''a,b''
   \<and> resume_draft_subject ''a;b'' ''draft'' = ''a;b''
   \<and> CHR '';'' \<in> set (resume_draft_subject ''a;b'' ''draft'')"
  by (simp add: compose_email_subject_def resume_draft_subject_def py_replace_def py_strip_def
      py_isspace_def)

text \<open>
  C9, amended. The subject \<open>compose_email\<close> transmits is the stripped input with every
  \<open>|\<close> and every \<open>~\<close> replaced by \<open>-\<close> and every \<open>;\<close> by \<open>,\<close>: it holds none of the three. For
  a message with that subject whose sender and time stamp hold no \<open>~\<close> and no \<open>;\<close>, the line
  of the \<open>INBOX\<close> listing splits into exactly five \<open>~\<close>-separated fields and the client
  parses it into one entry with that subject. \<open>resume_draft\<close> transmits a subject without
  \<open>|\<close> and \<open>~\<close>.
\<close>

theorem composed_subject_survives_listing:
  assumes "email_subject m = compose_email_subject typed"
    and "CHR ''~'' \<notin> set (email_from m)" and "CHR '';'' \<notin> set (email_from m)"
    and "CHR ''~'' \<notin> set (email_timestamp m)" and "CHR '';'' \<notin> set (email_timestamp m)"
  shows "CHR ''|'' \<notin> set (compose_email_subject typed)
    \<and> CHR ''~'' \<notin> set (compose_email_subject typed)
    \<and> CHR '';'' \<notin> set (compose_email_subject typed)
    \<and> compose_email_subject typed =
         map (\<lambda>c. if c = CHR ''|'' \<or> c = CHR ''~'' then CHR ''-''
                  else if c = CHR '';'' then CHR '','' else c) (py_strip typed)
    \<and> length (py_split (CHR ''~'') (py_rstrip_char (CHR '';'') (inbox_line m))) = 5
    \<and> sync_inbox_loop (py_split (CHR '';'') (py_rstrip_char (CHR '';'') (inbox_line m)))
        = [\<lparr>ie_id = str_int (email_id m), ie_from = email_from m,
            ie_subject = compose_email_subject typed,
            ie_timestamp = email_timestamp m, ie_read = email_read m\<rparr>]
    \<and> CHR ''|'' \<notin> set (resume_draft_subject typed' draft)
    \<and> CHR ''~'' \<notin> set (resume_draft_subject typed' draft)"
proof -
  let ?line = "py_rstrip_char (CHR '';'') (inbox_line m)"
  note clean = compose_email_subject_clean[of typed]
  have st: "CHR ''~'' \<notin> set (status_text m)" "CHR '';'' \<notin> set (status_text m)"
    "(status_text m = ''READ'') = email_read m"
    by (simp_all add: status_text_def)
  have id: "CHR ''~'' \<notin> set (str_int (email_id m))" "CHR '';'' \<notin> set (str_int (email_id m))"
    using str_int_no_sep[of "CHR ''~''" "email_id m"] str_int_no_sep[of "CHR '';''" "email_id m"]
    by auto
  have line: "?line = str_int (email_id m) @ [CHR ''~''] @ email_from m @ [CHR ''~'']
       @ compose_email_subject typed @ [CHR ''~''] @ email_timestamp m @ [CHR ''~'']
       @ status_text m"
    by (simp add: inbox_line_rstrip assms(1))
  have tilde: "py_split (CHR ''~'') ?line
     = [str_int (email_id m), email_from m, compose_email_subject typed, email_timestamp m,
        status_text m]"
    unfolding line using id(1) assms(2) clean assms(4) st(1) by (intro split_five) simp_all
  have "CHR '';'' \<notin> set ?line"
    unfolding line using id(2) assms(3) clean assms(5) st(2) by simp
  then have semi: "py_split (CHR '';'') ?line = [?line]"
    by (rule py_split_no_sep)
  have "CHR ''~'' \<in> set ?line"
    unfolding line by simp
  moreover have "\<not> py_isspace (CHR ''~'')"
    by (simp add: py_isspace_def)
  ultimately have ne: "py_strip ?line \<noteq> []"
    by (rule py_strip_nonempty)
  have "sync_inbox_loop [?line]
        = [\<lparr>ie_id = str_int (email_id m), ie_from = email_from m,
            ie_subject = compose_email_subject typed,
            ie_timestamp = email_timestamp m, ie_read = email_read m\<rparr>]"
    using ne st(3) by (simp add: tilde)
  then show ?thesis
    using clean compose_email_subject_map[of typed] resume_draft_subject_clean[of typed' draft]
    by (simp add: semi tilde)
qed

theorem composed_subject_survives_listing_witness:
  "email_subject (mail1\<lparr>email_subject := ''a-b-c,d''\<rparr>) = compose_email_subject '' a|b~c;d ''
   \<and> CHR ''~'' \<notin> set (email_from mail1) \<and> CHR '';'' \<notin> set (email_from mail1)
   \<and> CHR ''~'' \<notin> set (email_timestamp mail1) \<and> CHR '';'' \<notin> set (email_timestamp mail1)
   \<and> compose_email_subject '' a|b~c;d '' = ''a-b-c,d''
   \<and> length (py_split (CHR ''~'')
        (py_rstrip_char (CHR '';'') (inbox_line (mail1\<lparr>email_subject := ''a-b-c,d''\<rparr>)))) = 5"
proof -
  have s: "compose_email_subject '' a|b~c;d '' = ''a-b-c,d''"
    by (simp add: compose_email_subject_def py_replace_def py_strip_def py_isspace_def)
  have a: "email_subject (mail1\<lparr>email_subject := ''a-b-c,d''\<rparr>) = compose_email_subject '' a|b~c;d ''"
    by (simp add: s)
  have b: "CHR ''~'' \<notin> set (email_from (mail1\<lparr>email_subject := ''a-b-c,d''\<rparr>))"
    "CHR '';'' \<notin> set (email_from (mail1\<lparr>email_subject := ''a-b-c,d''\<rparr>))"
    "CHR ''~'' \<notin> set (email_timestamp (mail1\<lparr>email_subject := ''a-b-c,d''\<rparr>))"
    "CHR '';'' \<notin> set (email_timestamp (mail1\<lparr>email_subject := ''a-b-c,d''\<rparr>))"
    by (simp_all add: mail1_def)
  note k = composed_subject_survives_listing[OF a b, THEN conjunct2, THEN conjunct2,
      THEN conjunct2, THEN conjunct2, THEN conjunct1]
  from b have b': "CHR ''~'' \<notin> set (email_from mail1)" "CHR '';'' \<notin> set (email_from mail1)"
    "CHR ''~'' \<notin> set (email_timestamp mail1)" "CHR '';'' \<notin> set (email_timestamp mail1)"
    by simp_all
  show ?thesis
    by (simp only: a s k b' simp_thms)
qed

section \<open>A frame read in two parts\<close>

text \<open>
  C2. \<open>receive\<close> is to retry partial reads until the announced number of bytes has
  arrived and to return the payload that \<open>send\<close> serialised. It does so when the envelope
  arrives in one read (\<open>receive_whole_frame\<close>). When \<open>send\<close> has written a frame and the
  channel delivers the envelope in two reads, both not empty, the loop replaces its buffer
  by each read instead of extending it, the buffer never reaches the announced size, and
  \<open>receive\<close> never returns, whatever follows on the channel.
\<close>

theorem receive_partial_read_never_returns:
  assumes "send dumps [] args = Inr [header, body]"
    and "body = first @ rest" and "first \<noteq> []" and "rest \<noteq> []"
  shows "receive loads (header # first # rest # later) = None"
proof -
  obtain v where v: "htonl (length (dumps args)) = Inr v"
    and f: "[header, body] = [pack_L v, dumps args]"
    using send_frame[OF assms(1)] by auto
  then have h: "header = pack_L v" and b: "dumps args = first @ rest"
    using assms(2) by simp_all
  have pos: "0 < length (dumps args)"
    using b assms(3) by simp
  have "length first < length (dumps args)"
    using b assms(4) by simp
  with assms(3) have "recv_loop (length (dumps args)) (first # rest # later) [] = None"
    by (rule partial_first_read_stuck)
  with receive_header[OF v pos, of loads "first # rest # later"] show ?thesis
    by (simp add: h)
qed

theorem receive_partial_read_never_returns_witness:
  "send concat [] [''abcd''] = Inr [[CHR 0x00, CHR 0x00, CHR 0x00, CHR 0x04, CHR 0x00, CHR 0x00, CHR 0x00, CHR 0x00], ''abcd'']
   \<and> ''abcd'' = ''ab'' @ ''cd'' \<and> ''ab'' \<noteq> [] \<and> ''cd'' \<noteq> []
   \<and> receive (\<lambda>b. Inr [b])
        [[CHR 0x00, CHR 0x00, CHR 0x00, CHR 0x04, CHR 0x00, CHR 0x00, CHR 0x00, CHR 0x00], ''ab'', ''cd''] = None
   \<and> receive (\<lambda>b. Inr [b])
        [[CHR 0x00, CHR 0x00, CHR 0x00, CHR 0x04, CHR 0x00, CHR 0x00, CHR 0x00, CHR 0x00], ''abcd'']
       = Some (Inr (''abcd'', []))"
proof -
  have a: "send concat [] [''abcd'']
      = Inr [[CHR 0x00, CHR 0x00, CHR 0x00, CHR 0x04, CHR 0x00, CHR 0x00, CHR 0x00, CHR 0x00], ''abcd'']"
  proof -
    have l: "length (concat [''abcd'']) = 4"
      by simp
    show ?thesis
      unfolding send_def Let_def l htonl_4 by (simp add: pack_L_4)
  qed
  have b: "''abcd'' = ''ab'' @ ''cd''" and c: "''ab'' \<noteq> []" and d: "''cd'' \<noteq> []"
    by simp_all
  note k = receive_partial_read_never_returns[OF a b c d, of "\<lambda>b. Inr [b]" "[]"]
  have w: "receive (\<lambda>b. Inr [b])
        ([[CHR 0x00, CHR 0x00, CHR 0x00, CHR 0x04, CHR 0x00, CHR 0x00, CHR 0x00, CHR 0x00], ''abcd''] @ [])
       = Some (Inr (''abcd'', []))"
    using a by (rule receive_whole_frame) simp_all
  show ?thesis
    using a k w by simp
qed

end
